theory Spec2Isabelle
  imports Main "HOL-Library.Sublist" "HOL-Library.List_Lexorder" "HOL-Library.Char_ord"
begin

section \<open>The persistent store (server/db.ts)\<close>

text \<open>
  The four tables of \<^verbatim>\<open>db.ts\<close> that the interview lifecycle touches are lists of rows
  in insertion (rowid) order. A \<open>date\<close> is a JavaScript \<^verbatim>\<open>Date\<close>: the instant it
  denotes (\<open>getTime\<close>, in milliseconds) and its ISO-8601 text (\<open>toISOString\<close>). A
  timestamp column holds that text, and the store sorts and compares timestamps as
  texts, byte by byte; \<^verbatim>\<open>new Date(row.startedAt)\<close> gives the date back. The column
  \<^verbatim>\<open>id\<close> of each table is written \<open>rid\<close>, \<open>iid\<close>, \<open>mid\<close>, and the owner column of a
  resume \<open>r_userId\<close>; every other column keeps its name. The store is reliable:
  a statement of the driver does not fail, so the \<^verbatim>\<open>catch\<close> branches that only log a
  driver fault have no counterpart here.
\<close>

record date =
  getTime :: nat
  toISOString :: string

record insert_resume =
  r_userId :: int
  fileName :: string
  fileUrl :: string

record 'c resume = insert_resume +
  rid :: int
  uploadedAt :: date
  parsedContent :: 'c

record insert_interview =
  userId :: int
  resumeId :: "int option"
  targetRole :: string
  experienceLevel :: string
  interviewerCharacter :: string

record interview = insert_interview +
  iid :: int
  startedAt :: date
  endedAt :: "date option"
  status :: string

record insert_interview_message =
  interviewId :: int
  sender :: string
  content :: string

record interview_message = insert_interview_message +
  mid :: int
  sentAt :: date

record db =
  resumes :: "string option resume list"
  interviews :: "interview list"
  interview_messages :: "interview_message list"
  resumes_seq :: int
  interviews_seq :: int
  interview_messages_seq :: int

text \<open>
  \<^verbatim>\<open>INTEGER PRIMARY KEY AUTOINCREMENT\<close>: the new rowid is one more than the largest
  rowid the table has ever held.
\<close>

definition lastInsertRowid :: "int \<Rightarrow> int list \<Rightarrow> int" where
  "lastInsertRowid seq ids = fold max ids seq + 1"

definition initial_db :: db where
  "initial_db = \<lparr>resumes = [], interviews = [], interview_messages = [],
     resumes_seq = 0, interviews_seq = 0, interview_messages_seq = 0\<rparr>"

section \<open>Platform functions\<close>

text \<open>
  \<^verbatim>\<open>JSON.parse\<close>, \<^verbatim>\<open>JSON.stringify\<close> and the truthiness of a parsed value belong to
  the JavaScript platform, not to the repository: they are parameters.
  \<open>JSON_parse t = None\<close> is the \<^verbatim>\<open>SyntaxError\<close> that \<^verbatim>\<open>JSON.parse\<close> throws.
  The value of a resume's \<^verbatim>\<open>parsedContent\<close> property after a read is \<open>Absent\<close>
  (\<^verbatim>\<open>null\<close>), the stored text itself (\<open>Raw\<close>), or the parsed value (\<open>Parsed\<close>).
\<close>

datatype 'j parsed = Absent | Raw string | Parsed 'j

record 'j platform =
  JSON_parse :: "string \<Rightarrow> 'j option"
  JSON_stringify :: "'j parsed \<Rightarrow> string"
  truthy :: "'j \<Rightarrow> bool"

fun is_truthy :: "'j platform \<Rightarrow> 'j parsed \<Rightarrow> bool" where
  "is_truthy P Absent = False"
| "is_truthy P (Raw t) = (t \<noteq> [])"
| "is_truthy P (Parsed j) = truthy P j"

section \<open>Record access layer (server/storage.ts)\<close>

datatype error = Error string | ZodError | RangeError

subsection \<open>Resumes\<close>

text \<open>
  \<^verbatim>\<open>if (resume && resume.parsedContent) { try { resume.parsedContent =
  JSON.parse(resume.parsedContent) } catch (e) { console.warn(...) } }\<close>:
  a \<^verbatim>\<open>NULL\<close> or empty column is not parsed, a text that parses is replaced by its
  value, and a text that does not parse is left as it is.
\<close>

definition read_parsedContent :: "'j platform \<Rightarrow> string option \<Rightarrow> 'j parsed" where
  "read_parsedContent P c =
     (case c of
        None \<Rightarrow> Absent
      | Some t \<Rightarrow>
          if t = [] then Raw t
          else (case JSON_parse P t of Some j \<Rightarrow> Parsed j | None \<Rightarrow> Raw t))"

definition read_resume :: "'j platform \<Rightarrow> string option resume \<Rightarrow> 'j parsed resume" where
  "read_resume P r =
     \<lparr>r_userId = r_userId r, fileName = fileName r, fileUrl = fileUrl r,
      rid = rid r, uploadedAt = uploadedAt r,
      parsedContent = read_parsedContent P (parsedContent r)\<rparr>"

text \<open>
  The outer \<^verbatim>\<open>try\<close> of \<^verbatim>\<open>getResume\<close> returns \<^verbatim>\<open>undefined\<close> on a fault; the result
  type keeps a place for a fault that would leave the function (\<open>Inl\<close>).
\<close>

definition getResume :: "'j platform \<Rightarrow> db \<Rightarrow> int \<Rightarrow> error + 'j parsed resume option" where
  "getResume P d i = Inr (map_option (read_resume P) (find (\<lambda>r. rid r = i) (resumes d)))"

text \<open>
  \<^verbatim>\<open>ORDER BY uploadedAt DESC\<close>: a stable sort of the rows in rowid order, by the
  stored text.
\<close>

definition getResumesByUser :: "'j platform \<Rightarrow> db \<Rightarrow> int \<Rightarrow> error + 'j parsed resume list" where
  "getResumesByUser P d u =
     Inr (map (read_resume P)
            (rev (sort_key (\<lambda>r. toISOString (uploadedAt r)) (rev (filter (\<lambda>r. r_userId r = u) (resumes d))))))"

definition createResume ::
  "'j platform \<Rightarrow> db \<Rightarrow> insert_resume \<Rightarrow> date \<Rightarrow> (error + 'j parsed resume) \<times> db" where
  "createResume P d ins now =
     (let i = lastInsertRowid (resumes_seq d) (map rid (resumes d));
          row = \<lparr>r_userId = r_userId ins, fileName = fileName ins, fileUrl = fileUrl ins,
                 rid = i, uploadedAt = now, parsedContent = None\<rparr>;
          d' = d\<lparr>resumes := resumes d @ [row], resumes_seq := i\<rparr>
      in case getResume P d' i of
           Inr (Some r) \<Rightarrow> (Inr r, d')
         | _ \<Rightarrow> (Inl (Error ''Failed to retrieve created resume''), d'))"

definition updateResumeParsedContent ::
  "'j platform \<Rightarrow> db \<Rightarrow> int \<Rightarrow> 'j \<Rightarrow> (error + 'j parsed resume option) \<times> db" where
  "updateResumeParsedContent P d i v =
     (let stringifiedContent = JSON_stringify P (Parsed v);
          d' = d\<lparr>resumes := map (\<lambda>r. if rid r = i
                                        then r\<lparr>parsedContent := Some stringifiedContent\<rparr>
                                        else r) (resumes d)\<rparr>
      in (getResume P d' i, d'))"

subsection \<open>Interviews\<close>

definition getInterview :: "db \<Rightarrow> int \<Rightarrow> interview option" where
  "getInterview d i = find (\<lambda>r. iid r = i) (interviews d)"

text \<open>\<^verbatim>\<open>ORDER BY startedAt DESC\<close>.\<close>

definition getInterviewsByUser :: "db \<Rightarrow> int \<Rightarrow> interview list" where
  "getInterviewsByUser d u =
     rev (sort_key (\<lambda>r. toISOString (startedAt r))
            (rev (filter (\<lambda>r. userId r = u) (interviews d))))"

text \<open>\<^verbatim>\<open>insertInterview.resumeId || null\<close>: an absent or zero reference is stored as \<^verbatim>\<open>NULL\<close>.\<close>

definition or_null :: "int option \<Rightarrow> int option" where
  "or_null r = (case r of None \<Rightarrow> None | Some n \<Rightarrow> if n = 0 then None else Some n)"

definition createInterview :: "db \<Rightarrow> insert_interview \<Rightarrow> date \<Rightarrow> (error + interview) \<times> db" where
  "createInterview d ins now =
     (let i = lastInsertRowid (interviews_seq d) (map iid (interviews d));
          row = \<lparr>userId = userId ins, resumeId = or_null (resumeId ins),
                 targetRole = targetRole ins, experienceLevel = experienceLevel ins,
                 interviewerCharacter = interviewerCharacter ins,
                 iid = i, startedAt = now, endedAt = None, status = ''in_progress''\<rparr>;
          d' = d\<lparr>interviews := interviews d @ [row], interviews_seq := i\<rparr>
      in case getInterview d' i of
           Some iv \<Rightarrow> (Inr iv, d')
         | None \<Rightarrow> (Inl (Error ''Failed to retrieve created interview''), d'))"

text \<open>
  \<^verbatim>\<open>updateInterviewStatus(id, status, endedAt?)\<close>: with an end date both columns are
  written, without one only the status.
\<close>

definition updateInterviewStatus ::
  "db \<Rightarrow> int \<Rightarrow> string \<Rightarrow> date option \<Rightarrow> interview option \<times> db" where
  "updateInterviewStatus d i st ended =
     (let d' = d\<lparr>interviews :=
                   map (\<lambda>r. if iid r = i
                             then (case ended of
                                     Some t \<Rightarrow> r\<lparr>status := st, endedAt := Some t\<rparr>
                                   | None \<Rightarrow> r\<lparr>status := st\<rparr>)
                             else r) (interviews d)\<rparr>
      in (getInterview d' i, d'))"

subsection \<open>Interview messages\<close>

text \<open>
  \<^verbatim>\<open>SELECT * FROM interview_messages WHERE interviewId = ? ORDER BY sentAt ASC\<close>:
  the rows of the interview in rowid order, sorted by the stored text of \<open>sentAt\<close>,
  rows of equal text staying in rowid order.
\<close>

definition getInterviewMessages :: "db \<Rightarrow> int \<Rightarrow> interview_message list" where
  "getInterviewMessages d i =
     sort_key (\<lambda>m. toISOString (sentAt m))
       (filter (\<lambda>m. interviewId m = i) (interview_messages d))"

definition createInterviewMessage ::
  "db \<Rightarrow> insert_interview_message \<Rightarrow> date \<Rightarrow> (error + interview_message) \<times> db" where
  "createInterviewMessage d ins now =
     (let i = lastInsertRowid (interview_messages_seq d) (map mid (interview_messages d));
          row = \<lparr>interviewId = interviewId ins, sender = sender ins, content = content ins,
                 mid = i, sentAt = now\<rparr>;
          d' = d\<lparr>interview_messages := interview_messages d @ [row],
                 interview_messages_seq := i\<rparr>
      in case find (\<lambda>m. mid m = i) (interview_messages d') of
           Some m \<Rightarrow> (Inr m, d')
         | None \<Rightarrow> (Inl (Error ''Failed to retrieve created message''), d'))"

section \<open>Routes (server/routes.ts)\<close>

text \<open>
  A handler is a function of the store and of what the request carries after
  \<^verbatim>\<open>validateSession\<close>: \<open>actor\<close> is \<^verbatim>\<open>req.user.id\<close>, \<open>i\<close> is
  \<^verbatim>\<open>parseInt(req.params.id)\<close>. It returns the reply it sends and the store it leaves.
  Each \<^verbatim>\<open>new Date()\<close> a handler evaluates is an argument.
\<close>

datatype body =
    Message string
  | InvalidInput
  | InterviewBody interview
  | UpdatedInterview "interview option"
  | MessagePair interview_message interview_message
  | Download string

datatype reply = Reply nat body

subsection \<open>POST /api/interviews\<close>

definition greeting :: "interview \<Rightarrow> string" where
  "greeting interview =
     ''Hello! I'm your '' @ interviewerCharacter interview @
     '' interviewer. Welcome to ChessView. Let's start with a brief introduction. '' @
     ''Could you tell me a bit about yourself and your background in '' @
     targetRole interview @ ''?''"

text \<open>
  \<open>request\<close> is \<^verbatim>\<open>req.body\<close> as \<^verbatim>\<open>insertInterviewSchema\<close> reads it, \<open>None\<close> when
  the schema rejects it (\<^verbatim>\<open>ZodError\<close>); the handler overwrites its \<^verbatim>\<open>userId\<close>.
\<close>

text \<open>
  \<^verbatim>\<open>if (interviewData.resumeId) { const resume = await storage.getResume(...);
  if (!resume || resume.userId !== req.user.id) return res.status(403)... }\<close>
\<close>

definition resume_authorized :: "'j platform \<Rightarrow> db \<Rightarrow> int \<Rightarrow> int option \<Rightarrow> bool" where
  "resume_authorized P d actor ref =
     (case or_null ref of
        None \<Rightarrow> True
      | Some r \<Rightarrow>
          (case getResume P d r of
             Inr (Some resume) \<Rightarrow> r_userId resume = actor
           | _ \<Rightarrow> False))"

definition post_interviews ::
  "'j platform \<Rightarrow> db \<Rightarrow> int \<Rightarrow> insert_interview option \<Rightarrow> date \<Rightarrow> date \<Rightarrow> reply \<times> db" where
  "post_interviews P d actor request t1 t2 =
     (case request of
        None \<Rightarrow> (Reply 400 InvalidInput, d)
      | Some b \<Rightarrow>
          let interviewData = b\<lparr>userId := actor\<rparr>
          in if \<not> resume_authorized P d actor (resumeId interviewData)
             then (Reply 403 (Message ''Not authorized to use this resume''), d)
             else (case createInterview d interviewData t1 of
                     (Inl e, d1) \<Rightarrow> (Reply 500 (Message ''Failed to create interview''), d1)
                   | (Inr interview, d1) \<Rightarrow>
                       let initialMessage =
                             \<lparr>interviewId = iid interview, sender = ''ai'',
                              content = greeting interview\<rparr>
                       in (case createInterviewMessage d1 initialMessage t2 of
                             (Inl e, d2) \<Rightarrow>
                               (Reply 500 (Message ''Failed to create interview''), d2)
                           | (Inr m, d2) \<Rightarrow> (Reply 201 (InterviewBody interview), d2))))"

subsection \<open>PATCH /api/interviews/:id/end\<close>

definition patch_interviews_end :: "db \<Rightarrow> int \<Rightarrow> int \<Rightarrow> date \<Rightarrow> reply \<times> db" where
  "patch_interviews_end d actor i now =
     (case getInterview d i of
        None \<Rightarrow> (Reply 404 (Message ''Interview not found''), d)
      | Some interview \<Rightarrow>
          if userId interview \<noteq> actor
          then (Reply 403 (Message ''Not authorized to access this interview''), d)
          else (case updateInterviewStatus d (iid interview) ''completed'' (Some now) of
                  (updatedInterview, d') \<Rightarrow> (Reply 200 (UpdatedInterview updatedInterview), d')))"

subsection \<open>The completion service and getAIResponse\<close>

text \<open>
  The request \<^verbatim>\<open>getAIResponse\<close> sends, and what the call can do: reject (a network
  or service error), or resolve with a response whose \<^verbatim>\<open>choices\<close>, first choice,
  \<^verbatim>\<open>message\<close> and \<^verbatim>\<open>content\<close> may each be missing.
\<close>

record chat_request =
  model :: string
  messages :: "(string \<times> string) list"
  max_tokens :: nat

record chat_message =
  message_content :: "string option"

record choice =
  message :: "chat_message option"

record chat_completion =
  choices :: "choice list option"

datatype completion = Rejected | Resolved chat_completion

definition indent :: string where
  "indent = CHR 0x0A # replicate 8 (CHR '' '')"

definition systemMessage :: "string \<Rightarrow> string \<Rightarrow> string \<Rightarrow> string \<Rightarrow> string \<times> string" where
  "systemMessage character role level resumeContext =
     (''system'',
      ''You are an AI interviewer for a '' @ role @
      '' position. You embody the personality of a chess '' @ character @ '' piece.'' @
      indent @ ''The candidate's experience level is '' @ level @ ''.'' @
      indent @ resumeContext @
      indent @ ''Ask relevant technical questions based on the role and experience level.'' @
      indent @ ''Keep responses concise (2-3 sentences max).'' @
      indent @ ''Be professional but incorporate subtle chess metaphors or references '' @
      ''when appropriate.'')"

definition formattedMessages :: "interview_message list \<Rightarrow> (string \<times> string) list" where
  "formattedMessages msgs =
     map (\<lambda>msg. (if sender msg = ''user'' then ''user'' else ''assistant'', content msg)) msgs"

definition completion_request ::
  "string \<Rightarrow> string \<Rightarrow> string \<Rightarrow> interview_message list \<Rightarrow> string \<Rightarrow> chat_request" where
  "completion_request character role level msgs resumeContext =
     \<lparr>model = ''gpt-4o'',
      messages = systemMessage character role level resumeContext # formattedMessages msgs,
      max_tokens = 250\<rparr>"

definition apology :: string where
  "apology = ''I apologize, but I'm having trouble forming a response. '' @
     ''Let's continue our interview. Could you tell me more about your experience?''"

definition placeholder :: string where
  "placeholder = ''I'm processing your response. Please give me a moment.''"

text \<open>
  \<^verbatim>\<open>return response.choices[0].message.content || "I'm processing ..."\<close> inside the
  \<^verbatim>\<open>try\<close>, and the \<^verbatim>\<open>catch\<close> that returns the apology: a rejected call and a
  property read on \<^verbatim>\<open>undefined\<close> throw, a missing or empty content is falsy.
\<close>

definition response_content :: "completion \<Rightarrow> string" where
  "response_content outcome =
     (case outcome of
        Rejected \<Rightarrow> apology
      | Resolved response \<Rightarrow>
          (case choices response of
             None \<Rightarrow> apology
           | Some [] \<Rightarrow> apology
           | Some (c # cs) \<Rightarrow>
               (case message c of
                  None \<Rightarrow> apology
                | Some m \<Rightarrow>
                    (case message_content m of
                       None \<Rightarrow> placeholder
                     | Some t \<Rightarrow> if t = [] then placeholder else t))))"

definition getAIResponse ::
  "(chat_request \<Rightarrow> completion) \<Rightarrow> string \<Rightarrow> string \<Rightarrow> string \<Rightarrow>
   interview_message list \<Rightarrow> string \<Rightarrow> string" where
  "getAIResponse openai character role level msgs resumeContext =
     response_content (openai (completion_request character role level msgs resumeContext))"

subsection \<open>POST /api/interviews/:id/messages\<close>

text \<open>
  The handler runs up to the call of the completion service, waits, and resumes with
  the outcome. \<open>post_messages_begin\<close> is the first part: it leaves the store as it is
  when the service is invoked and returns what the handler holds then.
  \<open>post_messages_finish\<close> is the part that runs with the outcome, and
  \<open>post_messages\<close> the whole handler. \<open>text\<close> is \<^verbatim>\<open>req.body.content\<close>, \<open>None\<close> when
  \<^verbatim>\<open>insertInterviewMessageSchema\<close> rejects it.
\<close>

record pending =
  p_interview :: interview
  p_userMessage :: interview_message
  p_request :: chat_request

definition resumeContext :: "'j platform \<Rightarrow> db \<Rightarrow> interview \<Rightarrow> string" where
  "resumeContext P d interview =
     (case or_null (resumeId interview) of
        None \<Rightarrow> []
      | Some r \<Rightarrow>
          (case getResume P d r of
             Inr (Some resume) \<Rightarrow>
               if is_truthy P (parsedContent resume)
               then ''The user's resume shows the following information: '' @
                    JSON_stringify P (parsedContent resume)
               else []
           | _ \<Rightarrow> []))"

definition post_messages_begin ::
  "'j platform \<Rightarrow> db \<Rightarrow> int \<Rightarrow> int \<Rightarrow> string option \<Rightarrow> date \<Rightarrow> (reply + pending) \<times> db" where
  "post_messages_begin P d actor i text now =
     (case getInterview d i of
        None \<Rightarrow> (Inl (Reply 404 (Message ''Interview not found'')), d)
      | Some interview \<Rightarrow>
          if userId interview \<noteq> actor
          then (Inl (Reply 403 (Message ''Not authorized to access this interview'')), d)
          else if status interview \<noteq> ''in_progress''
          then (Inl (Reply 400
                  (Message ''Cannot send messages to a completed or cancelled interview'')), d)
          else (case text of
                  None \<Rightarrow> (Inl (Reply 400 InvalidInput), d)
                | Some c \<Rightarrow>
                    (case createInterviewMessage d
                            \<lparr>interviewId = iid interview, sender = ''user'', content = c\<rparr> now of
                       (Inl e, d1) \<Rightarrow> (Inl (Reply 500 (Message ''Failed to send message'')), d1)
                     | (Inr userMessage, d1) \<Rightarrow>
                         (Inr \<lparr>p_interview = interview, p_userMessage = userMessage,
                               p_request =
                                 completion_request (interviewerCharacter interview)
                                   (targetRole interview) (experienceLevel interview)
                                   (getInterviewMessages d1 (iid interview))
                                   (resumeContext P d1 interview)\<rparr>, d1))))"

definition post_messages_finish :: "db \<Rightarrow> pending \<Rightarrow> completion \<Rightarrow> date \<Rightarrow> reply \<times> db" where
  "post_messages_finish d p outcome now =
     (case createInterviewMessage d
             \<lparr>interviewId = iid (p_interview p), sender = ''ai'',
              content = response_content outcome\<rparr> now of
        (Inl e, d2) \<Rightarrow> (Reply 500 (Message ''Failed to send message''), d2)
      | (Inr aiMessage, d2) \<Rightarrow> (Reply 201 (MessagePair (p_userMessage p) aiMessage), d2))"

definition post_messages ::
  "'j platform \<Rightarrow> (chat_request \<Rightarrow> completion) \<Rightarrow> db \<Rightarrow> int \<Rightarrow> int \<Rightarrow> string option \<Rightarrow>
   date \<Rightarrow> date \<Rightarrow> reply \<times> db" where
  "post_messages P openai d actor i text t1 t2 =
     (case post_messages_begin P d actor i text t1 of
        (Inl r, d1) \<Rightarrow> (r, d1)
      | (Inr p, d1) \<Rightarrow> post_messages_finish d1 p (openai (p_request p)) t2)"

section \<open>Export utility (server/exportUtils.ts)\<close>

text \<open>
  A value of a row object as \<^verbatim>\<open>objectToCSVRow\<close> tells them apart. A \<^verbatim>\<open>Date\<close> carries
  the text of its \<^verbatim>\<open>toISOString()\<close>, an object the text of its \<^verbatim>\<open>JSON.stringify\<close>;
  a number is an integer, as every numeric column of the store is (a rowid prints
  in plain decimal digits).
\<close>

datatype js_value =
    JNull
  | JUndefined
  | JDate string
  | JObject string
  | JNumber int
  | JString string

fun digits :: "nat \<Rightarrow> string" where
  "digits n =
     (if n < 10 then [char_of (48 + n)]
      else digits (n div 10) @ [char_of (48 + n mod 10)])"

declare digits.simps [simp del]

text \<open>\<^verbatim>\<open>String(value)\<close> of a number and of a string.\<close>

fun String_of :: "js_value \<Rightarrow> string" where
  "String_of (JNumber n) = (if n < 0 then CHR ''-'' # digits (nat (- n)) else digits (nat n))"
| "String_of (JString t) = t"
| "String_of v = []"

text \<open>\<^verbatim>\<open>.replace(/"/g, '""')\<close>\<close>

definition double_quotes :: "string \<Rightarrow> string" where
  "double_quotes t = concat (map (\<lambda>c. if c = CHR 0x22 then [CHR 0x22, CHR 0x22] else [c]) t)"

fun join :: "string \<Rightarrow> string list \<Rightarrow> string" where
  "join sep [] = []"
| "join sep [x] = x"
| "join sep (x # y # ys) = x @ sep @ join sep (y # ys)"

fun csv_value :: "js_value \<Rightarrow> string" where
  "csv_value JNull = []"
| "csv_value JUndefined = []"
| "csv_value (JDate t) = t"
| "csv_value (JObject json) = double_quotes json"
| "csv_value v = CHR 0x22 # double_quotes (String_of v) @ [CHR 0x22]"

definition objectToCSVRow :: "js_value list \<Rightarrow> string" where
  "objectToCSVRow vals = join '','' (map csv_value vals)"

text \<open>
  A row of \<^verbatim>\<open>SELECT * FROM interviews\<close> as the driver returns it: the keys in column
  order, and the values, where a timestamp column is the stored ISO-8601 text.
\<close>

definition interview_keys :: "string list" where
  "interview_keys = [''id'', ''userId'', ''resumeId'', ''targetRole'', ''experienceLevel'',
     ''startedAt'', ''endedAt'', ''status'', ''interviewerCharacter'']"

definition interview_values :: "interview \<Rightarrow> js_value list" where
  "interview_values r =
     [JNumber (iid r), JNumber (userId r),
      (case resumeId r of None \<Rightarrow> JNull | Some n \<Rightarrow> JNumber n),
      JString (targetRole r), JString (experienceLevel r),
      JString (toISOString (startedAt r)),
      (case endedAt r of None \<Rightarrow> JNull | Some t \<Rightarrow> JString (toISOString t)),
      JString (status r), JString (interviewerCharacter r)]"

datatype js_date = ValidDate date | InvalidDate

record export_options =
  opt_userId :: "int option"
  startDate :: "js_date option"
  endDate :: "js_date option"

text \<open>
  The query \<^verbatim>\<open>exportInterviewsToCSV\<close> assembles: each filter is added when its
  option is truthy, the bounds are inclusive, the rows come newest first. The value
  bound to a placeholder is \<^verbatim>\<open>options.startDate.toISOString()\<close>, and the store compares
  it with the stored text of \<open>startedAt\<close> as texts.
\<close>

definition matches :: "export_options \<Rightarrow> interview \<Rightarrow> bool" where
  "matches options r =
     ((case opt_userId options of
         None \<Rightarrow> True | Some u \<Rightarrow> if u = 0 then True else userId r = u) \<and>
      (case startDate options of
         Some (ValidDate t) \<Rightarrow> toISOString t \<le> toISOString (startedAt r) | _ \<Rightarrow> True) \<and>
      (case endDate options of
         Some (ValidDate t) \<Rightarrow> toISOString (startedAt r) \<le> toISOString t | _ \<Rightarrow> True))"

definition select_interviews :: "db \<Rightarrow> export_options \<Rightarrow> interview list" where
  "select_interviews d options =
     rev (sort_key (\<lambda>r. toISOString (startedAt r))
            (rev (filter (matches options) (interviews d))))"

definition csv_content :: "interview list \<Rightarrow> string" where
  "csv_content rows =
     join [CHR 0x0A]
       (join '','' interview_keys # map (\<lambda>r. objectToCSVRow (interview_values r)) rows)"

text \<open>
  \<open>cwd\<close> is \<^verbatim>\<open>process.cwd()\<close>. The function returns a text or throws, and writes at
  most one file: the second component is the file written, its path and content.
  \<^verbatim>\<open>toISOString\<close> of an invalid date throws a \<^verbatim>\<open>RangeError\<close> before the \<^verbatim>\<open>try\<close>.
\<close>

definition exportInterviewsToCSV ::
  "string \<Rightarrow> db \<Rightarrow> export_options \<Rightarrow> date \<Rightarrow>
   (error + string) \<times> (string \<times> string) option" where
  "exportInterviewsToCSV cwd d options now =
     (let timestamp = map (\<lambda>c. if c = CHR '':'' then CHR ''-'' else c) (toISOString now);
          filename = ''interviews_export_'' @ timestamp @ ''.csv'';
          filePath = cwd @ ''/exports/'' @ filename
      in if startDate options = Some InvalidDate \<or> endDate options = Some InvalidDate
         then (Inl RangeError, None)
         else let rows = select_interviews d options
              in if length rows = 0
                 then (Inr ''No interviews found matching the criteria'', None)
                 else (Inr filePath, Some (filePath, csv_content rows)))"

subsection \<open>GET /api/export/interviews\<close>


section \<open>A reader of delimited text\<close>

text \<open>
  The repository writes delimited text and never reads it. To state what re-parsing
  an export yields, this is the usual reader of such text: fields separated by
  commas, records by line feeds; a field that opens with a quote runs to its closing
  quote, a doubled quote inside standing for one quote. It tells a quoted field from
  a bare one, as the export tells a value from \<^verbatim>\<open>null\<close>.
\<close>

datatype cell = Bare string | Quoted string

datatype mode = FieldStart | InBare | InQuoted | QuoteSeen

fun scan ::
  "mode \<Rightarrow> string \<Rightarrow> cell list \<Rightarrow> cell list list \<Rightarrow> string \<Rightarrow> cell list list option" where
  "scan FieldStart f r rs [] = Some (rev (rev (Bare [] # r) # rs))"
| "scan FieldStart f r rs (c # cs) =
     (if c = CHR 0x22 then scan InQuoted [] r rs cs
      else if c = CHR '','' then scan FieldStart [] (Bare [] # r) rs cs
      else if c = CHR 0x0A then scan FieldStart [] [] (rev (Bare [] # r) # rs) cs
      else scan InBare [c] r rs cs)"
| "scan InBare f r rs [] = Some (rev (rev (Bare (rev f) # r) # rs))"
| "scan InBare f r rs (c # cs) =
     (if c = CHR '','' then scan FieldStart [] (Bare (rev f) # r) rs cs
      else if c = CHR 0x0A then scan FieldStart [] [] (rev (Bare (rev f) # r) # rs) cs
      else scan InBare (c # f) r rs cs)"
| "scan InQuoted f r rs [] = None"
| "scan InQuoted f r rs (c # cs) =
     (if c = CHR 0x22 then scan QuoteSeen f r rs cs
      else scan InQuoted (c # f) r rs cs)"
| "scan QuoteSeen f r rs [] = Some (rev (rev (Quoted (rev f) # r) # rs))"
| "scan QuoteSeen f r rs (c # cs) =
     (if c = CHR 0x22 then scan InQuoted (c # f) r rs cs
      else if c = CHR '','' then scan FieldStart [] (Quoted (rev f) # r) rs cs
      else if c = CHR 0x0A then scan FieldStart [] [] (rev (Quoted (rev f) # r) # rs) cs
      else None)"

definition parse_csv :: "string \<Rightarrow> cell list list option" where
  "parse_csv text = scan FieldStart [] [] [] text"

text \<open>
  Reading a field back as a value of its column: a bare empty field is \<^verbatim>\<open>null\<close>, a
  quoted field of an \<^verbatim>\<open>INTEGER\<close> column is the number it writes, a quoted field of a
  \<^verbatim>\<open>TEXT\<close> column is its text.
\<close>

datatype column_type = INTEGER | TEXT

definition interview_columns :: "column_type list" where
  "interview_columns = [INTEGER, INTEGER, INTEGER, TEXT, TEXT, TEXT, TEXT, TEXT, TEXT]"

definition number_of :: "string \<Rightarrow> int" where
  "number_of t =
     (case t of
        [] \<Rightarrow> 0
      | c # cs \<Rightarrow>
          if c = CHR ''-'' then - int (foldl (\<lambda>a d. 10 * a + (of_char d - 48)) 0 cs)
          else int (foldl (\<lambda>a d. 10 * a + (of_char d - 48)) 0 t))"

fun revive :: "column_type \<Rightarrow> cell \<Rightarrow> js_value" where
  "revive ty (Bare t) = (if t = [] then JNull else JString t)"
| "revive INTEGER (Quoted t) = JNumber (number_of t)"
| "revive TEXT (Quoted t) = JString t"

definition revive_interviews :: "cell list list \<Rightarrow> js_value list list" where
  "revive_interviews table = map (\<lambda>row. map2 revive interview_columns row) (tl table)"

text \<open>
  The field the reader returns for a value the export wrote: \<open>field_of\<close>. A value is
  \<open>plain\<close> when it is not a \<^verbatim>\<open>Date\<close> or an object; the values of a row of the store are.
\<close>

fun field_of :: "js_value \<Rightarrow> cell" where
  "field_of JNull = Bare []"
| "field_of JUndefined = Bare []"
| "field_of (JDate t) = Bare t"
| "field_of (JObject t) = Bare (double_quotes t)"
| "field_of v = Quoted (String_of v)"

fun plain :: "js_value \<Rightarrow> bool" where
  "plain (JDate t) = False"
| "plain (JObject t) = False"
| "plain v = True"

section \<open>Rows written and failures of the completion service\<close>

text \<open>The row an \<^verbatim>\<open>INSERT\<close> of \<open>createInterviewMessage\<close> and of \<open>createInterview\<close> writes.\<close>

definition inserted_message :: "db \<Rightarrow> insert_interview_message \<Rightarrow> date \<Rightarrow> interview_message" where
  "inserted_message d ins now =
     \<lparr>interviewId = interviewId ins, sender = sender ins, content = content ins,
      mid = lastInsertRowid (interview_messages_seq d) (map mid (interview_messages d)),
      sentAt = now\<rparr>"

definition inserted_interview :: "db \<Rightarrow> insert_interview \<Rightarrow> date \<Rightarrow> interview" where
  "inserted_interview d ins now =
     \<lparr>userId = userId ins, resumeId = or_null (resumeId ins),
      targetRole = targetRole ins, experienceLevel = experienceLevel ins,
      interviewerCharacter = interviewerCharacter ins,
      iid = lastInsertRowid (interviews_seq d) (map iid (interviews d)),
      startedAt = now, endedAt = None, status = ''in_progress''\<rparr>"

text \<open>
  The three ways the completion service fails, in the words of the specification: the
  call rejects (a network error), the response lacks \<^verbatim>\<open>choices[0].message\<close> (a
  malformed response), or its content is \<^verbatim>\<open>null\<close> or empty.
\<close>

datatype failure = NetworkError | MalformedResponse | EmptyContent

definition failure :: "completion \<Rightarrow> failure option" where
  "failure outcome =
     (case outcome of
        Rejected \<Rightarrow> Some NetworkError
      | Resolved response \<Rightarrow>
          (case choices response of
             None \<Rightarrow> Some MalformedResponse
           | Some [] \<Rightarrow> Some MalformedResponse
           | Some (c # cs) \<Rightarrow>
               (case message c of
                  None \<Rightarrow> Some MalformedResponse
                | Some m \<Rightarrow>
                    (case message_content m of
                       None \<Rightarrow> Some EmptyContent
                     | Some t \<Rightarrow> if t = [] then Some EmptyContent else None))))"

section \<open>The server and its reachable states\<close>

text \<open>
  The state of the running server: the store, the last reading of the clock, and the
  requests of \<^verbatim>\<open>POST /api/interviews/:id/messages\<close> that wait for the completion
  service. The handlers use a synchronous driver, so the only point where one request
  gives way to another is that wait: every other handler is one step. The steps are
  the routes that write (upload of a resume and the timer that fills its parsed
  content, creation and end of an interview, the two halves of posting a message),
  and a restart of the process, which drops the waiting requests and keeps the store.

  Every \<^verbatim>\<open>new Date()\<close> reads the wall clock, and the code compares no two readings.
  \<open>run ok\<close> are the states reached when each reading \<open>t\<close> stands in the relation \<open>ok\<close>
  to the reading before it. \<open>reachable\<close> puts no condition on the readings: the
  clock may be set back between two requests. \<open>steady\<close> are the states reached while
  no reading is before the last one, as an instant and as the text the store keeps
  (the two orders agree for years of four digits).
\<close>

record server =
  store :: db
  clock :: date
  in_flight :: "pending list"

inductive run :: "(date \<Rightarrow> date \<Rightarrow> bool) \<Rightarrow> 'j platform \<Rightarrow> server \<Rightarrow> bool"
  for ok :: "date \<Rightarrow> date \<Rightarrow> bool" and P :: "'j platform" where
  start: "run ok P \<lparr>store = initial_db, clock = t, in_flight = []\<rparr>"
| upload: "run ok P s \<Longrightarrow> ok (clock s) t \<Longrightarrow>
     run ok P (s\<lparr>store := snd (createResume P (store s) ins t), clock := t\<rparr>)"
| parsed: "run ok P s \<Longrightarrow>
     run ok P (s\<lparr>store := snd (updateResumeParsedContent P (store s) i v)\<rparr>)"
| create: "run ok P s \<Longrightarrow> ok (clock s) t1 \<Longrightarrow> ok t1 t2 \<Longrightarrow>
     run ok P (s\<lparr>store := snd (post_interviews P (store s) actor request t1 t2), clock := t2\<rparr>)"
| ended: "run ok P s \<Longrightarrow> ok (clock s) t \<Longrightarrow>
     run ok P (s\<lparr>store := snd (patch_interviews_end (store s) actor i t), clock := t\<rparr>)"
| asked: "run ok P s \<Longrightarrow> ok (clock s) t \<Longrightarrow>
     post_messages_begin P (store s) actor i text t = (r, d) \<Longrightarrow>
     run ok P \<lparr>store = d, clock = t,
                in_flight = (case r of Inl e \<Rightarrow> in_flight s | Inr p \<Rightarrow> p # in_flight s)\<rparr>"
| answered: "run ok P s \<Longrightarrow> p \<in> set (in_flight s) \<Longrightarrow> ok (clock s) t \<Longrightarrow>
     run ok P \<lparr>store = snd (post_messages_finish (store s) p outcome t), clock = t,
                in_flight = remove1 p (in_flight s)\<rparr>"
| restart: "run ok P s \<Longrightarrow> run ok P (s\<lparr>in_flight := []\<rparr>)"

definition any_reading :: "date \<Rightarrow> date \<Rightarrow> bool" where
  "any_reading a b = True"

definition not_before :: "date \<Rightarrow> date \<Rightarrow> bool" where
  "not_before a b = (getTime a \<le> getTime b \<and> toISOString a \<le> toISOString b)"

definition reachable :: "'j platform \<Rightarrow> server \<Rightarrow> bool" where
  "reachable P s = run any_reading P s"

definition steady :: "'j platform \<Rightarrow> server \<Rightarrow> bool" where
  "steady P s = run not_before P s"

definition ended_row :: "date \<Rightarrow> interview \<Rightarrow> interview" where
  "ended_row now r = r\<lparr>status := ''completed'', endedAt := Some now\<rparr>"

text \<open>
  The status of a row and its end timestamp go together (\<open>status_ok\<close>); under a steady
  clock its timestamps are in order and not after the last reading (\<open>stamps_ok\<close>).
\<close>

definition status_ok :: "interview \<Rightarrow> bool" where
  "status_ok r =
     (status r = ''in_progress'' \<and> endedAt r = None \<or>
      status r = ''completed'' \<and> (\<exists>e. endedAt r = Some e))"

definition stamps_ok :: "date \<Rightarrow> interview \<Rightarrow> bool" where
  "stamps_ok now r =
     (getTime (startedAt r) \<le> getTime now \<and>
      (case endedAt r of
         None \<Rightarrow> True
       | Some e \<Rightarrow> getTime (startedAt r) \<le> getTime e \<and> getTime e \<le> getTime now))"

section \<open>Invariants of the reachable states\<close>

text \<open>
  \<open>message_log\<close> is the log of one interview in rowid order; \<open>replies\<close> and \<open>turns\<close>
  count its messages from the interviewer and from the candidate; \<open>waiting\<close> counts
  the requests of an interview that wait for the service. \<open>linked\<close>, \<open>greeted\<close> and
  \<open>prompted\<close> are properties of every reachable state, \<open>timed\<close> of every steady one:
  the stored texts of \<open>sentAt\<close> are sorted in rowid order.
\<close>

definition message_log :: "db \<Rightarrow> int \<Rightarrow> interview_message list" where
  "message_log d i = filter (\<lambda>m. interviewId m = i) (interview_messages d)"

definition replies :: "interview_message list \<Rightarrow> nat" where
  "replies ms = length (filter (\<lambda>m. sender m = ''ai'') ms)"

definition turns :: "interview_message list \<Rightarrow> nat" where
  "turns ms = length (filter (\<lambda>m. sender m = ''user'') ms)"

definition waiting :: "pending list \<Rightarrow> int \<Rightarrow> nat" where
  "waiting fl i = length (filter (\<lambda>p. iid (p_interview p) = i) fl)"

definition timed :: "server \<Rightarrow> bool" where
  "timed s =
     (sorted (map (\<lambda>m. toISOString (sentAt m)) (interview_messages (store s))) \<and>
      (\<forall>m\<in>set (interview_messages (store s)).
         toISOString (sentAt m) \<le> toISOString (clock s)))"

definition linked :: "server \<Rightarrow> bool" where
  "linked s =
     ((\<forall>m\<in>set (interview_messages (store s)). interviewId m \<in> iid ` set (interviews (store s))) \<and>
      (\<forall>p\<in>set (in_flight s).
         iid (p_interview p) \<in> iid ` set (interviews (store s)) \<and>
         p_userMessage p \<in> set (interview_messages (store s)) \<and>
         sender (p_userMessage p) = ''user'' \<and>
         interviewId (p_userMessage p) = iid (p_interview p)))"

definition greeted :: "server \<Rightarrow> bool" where
  "greeted s =
     (\<forall>r\<in>set (interviews (store s)).
        \<exists>m ms. message_log (store s) (iid r) = m # ms \<and> sender m = ''ai'')"

definition prompted :: "server \<Rightarrow> bool" where
  "prompted s =
     ((\<forall>i. replies (message_log (store s) i) + waiting (in_flight s) i
             \<le> turns (message_log (store s) i) + 1) \<and>
      (\<forall>i n. replies (take n (message_log (store s) i))
             \<le> turns (take n (message_log (store s) i)) + 1))"

section \<open>Example data\<close>

text \<open>
  The scenario of the specification: user 1 runs an interview for the role backend,
  level intermediate, persona rook. \<open>no_json\<close> is a platform whose parser rejects
  every text. \<open>t5\<close>, \<open>t10\<close>, ... are the dates 5, 10, ... milliseconds after the epoch.
\<close>

abbreviation no_json :: "unit platform" where
  "no_json \<equiv> \<lparr>JSON_parse = (\<lambda>t. None), JSON_stringify = (\<lambda>v. []), truthy = (\<lambda>j. False)\<rparr>"

abbreviation t0 :: date where
  "t0 \<equiv> \<lparr>getTime = 0, toISOString = ''1970-01-01T00:00:00.000Z''\<rparr>"

abbreviation t5 :: date where
  "t5 \<equiv> \<lparr>getTime = 5, toISOString = ''1970-01-01T00:00:00.005Z''\<rparr>"

abbreviation t10 :: date where
  "t10 \<equiv> \<lparr>getTime = 10, toISOString = ''1970-01-01T00:00:00.010Z''\<rparr>"

abbreviation t20 :: date where
  "t20 \<equiv> \<lparr>getTime = 20, toISOString = ''1970-01-01T00:00:00.020Z''\<rparr>"

abbreviation t30 :: date where
  "t30 \<equiv> \<lparr>getTime = 30, toISOString = ''1970-01-01T00:00:00.030Z''\<rparr>"

abbreviation t31 :: date where
  "t31 \<equiv> \<lparr>getTime = 31, toISOString = ''1970-01-01T00:00:00.031Z''\<rparr>"

abbreviation t40 :: date where
  "t40 \<equiv> \<lparr>getTime = 40, toISOString = ''1970-01-01T00:00:00.040Z''\<rparr>"

abbreviation rook_interview :: "string \<Rightarrow> date option \<Rightarrow> interview" where
  "rook_interview st ended \<equiv>
     \<lparr>userId = 1, resumeId = None, targetRole = ''backend'',
      experienceLevel = ''intermediate'', interviewerCharacter = ''rook'',
      iid = 1, startedAt = t10, endedAt = ended, status = st\<rparr>"

abbreviation rook_seed :: interview_message where
  "rook_seed \<equiv>
     \<lparr>interviewId = 1, sender = ''ai'',
      content = greeting (rook_interview ''in_progress'' None), mid = 1, sentAt = t10\<rparr>"

abbreviation rook_db :: "string \<Rightarrow> date option \<Rightarrow> db" where
  "rook_db st ended \<equiv>
     \<lparr>resumes = [], interviews = [rook_interview st ended],
      interview_messages = [rook_seed],
      resumes_seq = 0, interviews_seq = 1, interview_messages_seq = 1\<rparr>"

abbreviation go_message :: interview_message where
  "go_message \<equiv>
     \<lparr>interviewId = 1, sender = ''user'', content = ''I have 3 years of Go experience'',
      mid = 2, sentAt = t30\<rparr>"

abbreviation early_message :: interview_message where
  "early_message \<equiv>
     \<lparr>interviewId = 1, sender = ''user'', content = ''I have 3 years of Go experience'',
      mid = 2, sentAt = t5\<rparr>"

abbreviation empty_reply :: chat_completion where
  "empty_reply \<equiv> \<lparr>choices = Some [\<lparr>message = Some \<lparr>message_content = Some []\<rparr>\<rparr>]\<rparr>"

abbreviation corrupt_db :: db where
  "corrupt_db \<equiv>
     \<lparr>resumes = [\<lparr>r_userId = 1, fileName = ''cv.pdf'', fileUrl = ''/uploads/cv.pdf'',
                  rid = 1, uploadedAt = t5, parsedContent = Some ''{oops''\<rparr>],
      interviews = [], interview_messages = [],
      resumes_seq = 1, interviews_seq = 0, interview_messages_seq = 0\<rparr>"

abbreviation rook_request :: insert_interview where
  "rook_request \<equiv>
     \<lparr>userId = 0, resumeId = None, targetRole = ''backend'',
      experienceLevel = ''intermediate'', interviewerCharacter = ''rook''\<rparr>"

abbreviation rook_pending :: "interview_message \<Rightarrow> pending" where
  "rook_pending u \<equiv>
     \<lparr>p_interview = rook_interview ''in_progress'' None, p_userMessage = u,
      p_request = completion_request ''rook'' ''backend'' ''intermediate''
                    (getInterviewMessages
                       ((rook_db ''in_progress'' None)
                          \<lparr>interview_messages := [rook_seed, u], interview_messages_seq := 2\<rparr>) 1)
                    []\<rparr>"

abbreviation rook_asked :: "interview_message \<Rightarrow> db" where
  "rook_asked u \<equiv>
     (rook_db ''in_progress'' None)
       \<lparr>interview_messages := [rook_seed, u], interview_messages_seq := 2\<rparr>"

section \<open>Facts about the store\<close>

lemma lastInsertRowid_fresh: "x \<in> set ids \<Longrightarrow> x < lastInsertRowid seq ids"
proof -
  assume "x \<in> set ids"
  then have "x \<le> Max (set (seq # ids))" by simp
  then show ?thesis
    by (simp only: lastInsertRowid_def Max.set_eq_fold [symmetric])
qed

lemma find_append_fresh:
  "\<forall>x\<in>set xs. f x \<noteq> k \<Longrightarrow> f row = k \<Longrightarrow> find (\<lambda>r. f r = k) (xs @ [row]) = Some row"
  by (induction xs) auto

lemma find_map_keep:
  "(\<And>x. f (g x) = f x) \<Longrightarrow>
   find (\<lambda>r. f r = k) (map (\<lambda>r. if f r = k then g r else r) xs)
     = map_option g (find (\<lambda>r. f r = k) xs)"
  by (induction xs) auto

lemma find_map_other:
  "(\<And>x. f (g x) = f x) \<Longrightarrow> k \<noteq> i \<Longrightarrow>
   find (\<lambda>r. f r = k) (map (\<lambda>r. if f r = i then g r else r) xs) = find (\<lambda>r. f r = k) xs"
  by (induction xs) auto

lemma createInterviewMessage_eq:
  "createInterviewMessage d ins now =
     (Inr (inserted_message d ins now),
      d\<lparr>interview_messages := interview_messages d @ [inserted_message d ins now],
        interview_messages_seq := mid (inserted_message d ins now)\<rparr>)"
proof -
  let ?i = "lastInsertRowid (interview_messages_seq d) (map mid (interview_messages d))"
  have "\<forall>x\<in>set (interview_messages d). mid x \<noteq> ?i"
    using lastInsertRowid_fresh [of _ "map mid (interview_messages d)" "interview_messages_seq d"]
    by fastforce
  then have "find (\<lambda>m. mid m = ?i) (interview_messages d @ [inserted_message d ins now])
      = Some (inserted_message d ins now)"
    by (intro find_append_fresh) (auto simp: inserted_message_def)
  then show ?thesis
    by (simp add: createInterviewMessage_def inserted_message_def Let_def)
qed

lemma createInterview_eq:
  "createInterview d ins now =
     (Inr (inserted_interview d ins now),
      d\<lparr>interviews := interviews d @ [inserted_interview d ins now],
        interviews_seq := iid (inserted_interview d ins now)\<rparr>)"
proof -
  let ?i = "lastInsertRowid (interviews_seq d) (map iid (interviews d))"
  have "\<forall>x\<in>set (interviews d). iid x \<noteq> ?i"
    using lastInsertRowid_fresh [of _ "map iid (interviews d)" "interviews_seq d"]
    by fastforce
  then have "find (\<lambda>r. iid r = ?i) (interviews d @ [inserted_interview d ins now])
      = Some (inserted_interview d ins now)"
    by (intro find_append_fresh) (auto simp: inserted_interview_def)
  then show ?thesis
    by (simp add: createInterview_def getInterview_def inserted_interview_def Let_def)
qed

lemma getInterview_iid: "getInterview d i = Some interview \<Longrightarrow> iid interview = i"
  by (auto simp: getInterview_def dest: find_Some_iff [THEN iffD1])

lemma getInterview_mem: "getInterview d i = Some interview \<Longrightarrow> interview \<in> set (interviews d)"
  by (auto simp: getInterview_def find_Some_iff)

section \<open>Posting a message\<close>

lemma response_content_failure:
  "failure outcome = Some k \<Longrightarrow>
   response_content outcome = (if k = EmptyContent then placeholder else apology)"
  by (auto simp: failure_def response_content_def
      split: completion.splits option.splits list.splits if_splits)

lemma post_messages_begin_accepts:
  assumes "getInterview d i = Some interview" "userId interview = actor"
    "status interview = ''in_progress''"
  shows "post_messages_begin P d actor i (Some c) t =
      (let u = inserted_message d
                 \<lparr>interviewId = iid interview, sender = ''user'', content = c\<rparr> t;
           d1 = d\<lparr>interview_messages := interview_messages d @ [u],
                  interview_messages_seq := mid u\<rparr>
       in (Inr \<lparr>p_interview = interview, p_userMessage = u,
                 p_request = completion_request (interviewerCharacter interview)
                   (targetRole interview) (experienceLevel interview)
                   (getInterviewMessages d1 (iid interview)) (resumeContext P d1 interview)\<rparr>, d1))"
  using assms by (simp add: post_messages_begin_def createInterviewMessage_eq Let_def)

lemma post_messages_finish_eq:
  "post_messages_finish d p outcome t =
     (let a = inserted_message d \<lparr>interviewId = iid (p_interview p), sender = ''ai'',
                               content = response_content outcome\<rparr> t
      in (Reply 201 (MessagePair (p_userMessage p) a),
          d\<lparr>interview_messages := interview_messages d @ [a], interview_messages_seq := mid a\<rparr>))"
  by (simp add: post_messages_finish_def createInterviewMessage_eq Let_def)

text \<open>The reply the whole handler stores is the text \<open>getAIResponse\<close> returns.\<close>

lemma post_messages_getAIResponse:
  assumes "getInterview d i = Some interview" "userId interview = actor"
    "status interview = ''in_progress''"
    and "post_messages_begin P d actor i (Some c) t = (Inr p, d1)"
  shows "response_content (openai (p_request p)) =
     getAIResponse openai (interviewerCharacter interview) (targetRole interview)
       (experienceLevel interview) (getInterviewMessages d1 (iid interview))
       (resumeContext P d1 interview)"
  using assms(4)
  by (auto simp: post_messages_begin_accepts [OF assms(1-3)] Let_def getAIResponse_def)

text \<open>
  C2. For every interview whose status is not \<^verbatim>\<open>in_progress\<close>, posting a message is
  rejected with an error reply (400, or 403 for a caller who does not own it), the
  handler stops before it writes or calls the completion service, and the store,
  so the message rows of the interview, is unchanged.
\<close>

theorem post_messages_rejected:
  assumes "getInterview d i = Some interview" and "status interview \<noteq> ''in_progress''"
  shows "post_messages P openai d actor i text t1 t2 =
           (if userId interview = actor
            then Reply 400 (Message ''Cannot send messages to a completed or cancelled interview'')
            else Reply 403 (Message ''Not authorized to access this interview''), d)
         \<and> (\<exists>r. post_messages_begin P d actor i text t1 = (Inl r, d))
         \<and> getInterviewMessages (snd (post_messages P openai d actor i text t1 t2)) i
             = getInterviewMessages d i"
  using assms by (simp add: post_messages_def post_messages_begin_def)

theorem post_messages_rejected_witness:
  "getInterview (rook_db ''completed'' (Some t20)) 1 = Some (rook_interview ''completed'' (Some t20))
   \<and> status (rook_interview ''completed'' (Some t20)) \<noteq> ''in_progress''
   \<and> post_messages no_json (\<lambda>q. Rejected) (rook_db ''completed'' (Some t20)) 1 1
         (Some ''hello'') t30 t31 =
       (Reply 400 (Message ''Cannot send messages to a completed or cancelled interview''),
        rook_db ''completed'' (Some t20))"
proof -
  have a: "getInterview (rook_db ''completed'' (Some t20)) 1
      = Some (rook_interview ''completed'' (Some t20))"
    by (simp add: getInterview_def)
  have b: "status (rook_interview ''completed'' (Some t20)) \<noteq> ''in_progress''" by simp
  from post_messages_rejected [OF a b, of no_json "\<lambda>q. Rejected" 1 "Some ''hello''" t30 t31] a b
  show ?thesis by simp
qed

lemma post_messages_begin_InrD:
  assumes "post_messages_begin P d actor i text t = (Inr p, d1)"
  shows "\<exists>interview c. getInterview d i = Some interview \<and> userId interview = actor
           \<and> status interview = ''in_progress'' \<and> text = Some c"
  using assms
  by (auto simp: post_messages_begin_def createInterviewMessage_eq
      split: option.splits if_splits)

text \<open>
  C4, as the code has it. Whenever the handler reaches the call of the completion
  service and the service fails, the request still answers 201 with the two messages
  it appended, the user's and a fixed reply from the interviewer, and nothing else in
  the store changes. The fixed reply is the apology when the call rejects or the
  response is malformed, and the placeholder ``I'm processing your response. Please
  give me a moment.'' when the content is \<^verbatim>\<open>null\<close> or empty.
\<close>

theorem post_messages_service_failure:
  assumes "post_messages_begin P d actor i text t1 = (Inr p, d1)"
    and "failure (openai (p_request p)) = Some k"
  shows "\<exists>a d2. post_messages P openai d actor i text t1 t2 =
             (Reply 201 (MessagePair (p_userMessage p) a), d2)
           \<and> interview_messages d2 = interview_messages d @ [p_userMessage p, a]
           \<and> interviews d2 = interviews d
           \<and> interviewId (p_userMessage p) = i \<and> sender (p_userMessage p) = ''user''
           \<and> text = Some (content (p_userMessage p))
           \<and> interviewId a = i \<and> sender a = ''ai''
           \<and> content a = (if k = EmptyContent then placeholder else apology)"
proof -
  from post_messages_begin_InrD [OF assms(1)] obtain interview c where
    h: "getInterview d i = Some interview" "userId interview = actor"
      "status interview = ''in_progress''" "text = Some c"
    by blast
  have i: "iid interview = i" using h(1) by (rule getInterview_iid)
  show ?thesis
    using assms i h(4)
    by (simp add: post_messages_def post_messages_begin_accepts [OF h(1-3)]
        post_messages_finish_eq Let_def inserted_message_def)
      (auto simp: response_content_failure)
qed

theorem post_messages_empty_content_counterexample:
  "map (\<lambda>m. (sender m, content m))
     (interview_messages (snd (post_messages no_json (\<lambda>q. Resolved empty_reply)
        (rook_db ''in_progress'' None) 1 1 (Some ''I have 3 years of Go experience'') t30 t31)))
   = [(''ai'', greeting (rook_interview ''in_progress'' None)),
      (''user'', ''I have 3 years of Go experience''),
      (''ai'', ''I'm processing your response. Please give me a moment.'')]
   \<and> apology \<noteq> ''I'm processing your response. Please give me a moment.''"
  by (simp add: post_messages_def post_messages_begin_def post_messages_finish_def
      getInterview_def createInterviewMessage_def lastInsertRowid_def
      response_content_def placeholder_def apology_def Let_def)

theorem post_messages_service_failure_witness:
  "post_messages_begin no_json (rook_db ''in_progress'' None) 1 1
       (Some ''I have 3 years of Go experience'') t30
     = (Inr \<lparr>p_interview = rook_interview ''in_progress'' None, p_userMessage = go_message,
             p_request = completion_request ''rook'' ''backend'' ''intermediate''
                [rook_seed, go_message] []\<rparr>,
        (rook_db ''in_progress'' None)
          \<lparr>interview_messages := [rook_seed, go_message], interview_messages_seq := 2\<rparr>)
   \<and> failure Rejected = Some NetworkError
   \<and> map (\<lambda>m. (sender m, content m))
       (interview_messages (snd (post_messages no_json (\<lambda>q. Rejected)
          (rook_db ''in_progress'' None) 1 1 (Some ''I have 3 years of Go experience'') t30 t31)))
     = [(''ai'', greeting (rook_interview ''in_progress'' None)),
        (''user'', ''I have 3 years of Go experience''),
        (''ai'', apology)]"
proof -
  have a: "post_messages_begin no_json (rook_db ''in_progress'' None) 1 1
       (Some ''I have 3 years of Go experience'') t30
     = (Inr \<lparr>p_interview = rook_interview ''in_progress'' None, p_userMessage = go_message,
             p_request = completion_request ''rook'' ''backend'' ''intermediate''
                [rook_seed, go_message] []\<rparr>,
        (rook_db ''in_progress'' None)
          \<lparr>interview_messages := [rook_seed, go_message], interview_messages_seq := 2\<rparr>)"
    by (simp add: post_messages_begin_def getInterview_def createInterviewMessage_def
        lastInsertRowid_def getInterviewMessages_def resumeContext_def or_null_def Let_def)
  have b: "failure ((\<lambda>q. Rejected) (p_request \<lparr>p_interview = rook_interview ''in_progress'' None,
             p_userMessage = go_message,
             p_request = completion_request ''rook'' ''backend'' ''intermediate''
                [rook_seed, go_message] []\<rparr>)) = Some NetworkError"
    by (simp add: failure_def)
  from post_messages_service_failure [OF a b, of t31] a
  show ?thesis by (auto simp: failure_def)
qed

section \<open>Reading a resume\<close>

lemma read_parsedContent_corrupt:
  "JSON_parse P t = None \<Longrightarrow> read_parsedContent P (Some t) = Raw t"
  by (simp add: read_parsedContent_def)

text \<open>
  C9, as the code has it. For a stored resume whose \<^verbatim>\<open>parsedContent\<close> column holds a
  text that \<^verbatim>\<open>JSON.parse\<close> rejects, \<open>getResume\<close> and \<open>getResumesByUser\<close> do not throw:
  they return the resume, and its \<^verbatim>\<open>parsedContent\<close> is the stored text itself, left
  as it was, neither empty nor absent.
\<close>

theorem getResume_corrupt_parsedContent:
  assumes "row \<in> set (resumes d)" and "parsedContent row = Some t"
    and "JSON_parse P t = None"
  shows "(\<exists>r. getResume P d i = Inr r)
       \<and> (find (\<lambda>r. rid r = i) (resumes d) = Some row \<longrightarrow>
            getResume P d i = Inr (Some (read_resume P row)))
       \<and> (\<exists>rs. getResumesByUser P d (r_userId row) = Inr rs \<and> read_resume P row \<in> set rs)
       \<and> parsedContent (read_resume P row) = Raw t"
  using assms
  by (auto simp: getResume_def getResumesByUser_def read_resume_def read_parsedContent_corrupt)

theorem getResume_corrupt_counterexample:
  "getResume no_json corrupt_db 1 =
     Inr (Some \<lparr>r_userId = 1, fileName = ''cv.pdf'', fileUrl = ''/uploads/cv.pdf'',
                 rid = 1, uploadedAt = t5, parsedContent = Raw ''{oops''\<rparr>)
   \<and> Raw ''{oops'' \<noteq> (Absent :: unit parsed)"
  by (simp add: getResume_def read_resume_def read_parsedContent_def)

theorem getResume_corrupt_parsedContent_witness:
  "hd (resumes corrupt_db) \<in> set (resumes corrupt_db)
   \<and> parsedContent (hd (resumes corrupt_db)) = Some ''{oops''
   \<and> JSON_parse no_json ''{oops'' = None
   \<and> getResumesByUser no_json corrupt_db 1 =
       Inr [\<lparr>r_userId = 1, fileName = ''cv.pdf'', fileUrl = ''/uploads/cv.pdf'',
             rid = 1, uploadedAt = t5, parsedContent = Raw ''{oops''\<rparr>]
   \<and> parsedContent (read_resume no_json (hd (resumes corrupt_db))) = Raw ''{oops''"
proof -
  have a: "hd (resumes corrupt_db) \<in> set (resumes corrupt_db)" by simp
  have b: "parsedContent (hd (resumes corrupt_db)) = Some ''{oops''" by simp
  have c: "JSON_parse no_json ''{oops'' = None" by simp
  from getResume_corrupt_parsedContent [OF a b c, of 1] a b c
  show ?thesis
    by (simp add: getResumesByUser_def read_resume_def read_parsedContent_def)
qed

section \<open>Exporting interviews\<close>

lemma matches_compares_texts:
  "matches \<lparr>opt_userId = Some 1,
            startDate = Some (ValidDate \<lparr>getTime = 253402300800000,
                                          toISOString = ''+010000-01-01T00:00:00.000Z''\<rparr>),
            endDate = None\<rparr>
     (rook_interview ''in_progress'' None)"
  by (simp add: matches_def)




section \<open>Effects of the routes on the store\<close>

lemma stamps_ok_mono:
  "stamps_ok t r \<Longrightarrow> getTime t \<le> getTime t' \<Longrightarrow> stamps_ok t' r"
  by (auto simp: stamps_ok_def split: option.splits)

lemma createResume_frame:
  "interviews (snd (createResume P d ins t)) = interviews d"
  "interview_messages (snd (createResume P d ins t)) = interview_messages d"
  by (auto simp: createResume_def Let_def getResume_def split: sum.splits option.splits)

lemma updateResumeParsedContent_frame:
  "interviews (snd (updateResumeParsedContent P d i v)) = interviews d"
  "interview_messages (snd (updateResumeParsedContent P d i v)) = interview_messages d"
  by (auto simp: updateResumeParsedContent_def Let_def)

lemma post_interviews_eq:
  "post_interviews P d actor request t1 t2 =
     (case request of
        None \<Rightarrow> (Reply 400 InvalidInput, d)
      | Some b \<Rightarrow>
          if \<not> resume_authorized P d actor (resumeId b)
          then (Reply 403 (Message ''Not authorized to use this resume''), d)
          else let iv = inserted_interview d (b\<lparr>userId := actor\<rparr>) t1;
                   d1 = d\<lparr>interviews := interviews d @ [iv], interviews_seq := iid iv\<rparr>;
                   m = inserted_message d1
                         \<lparr>interviewId = iid iv, sender = ''ai'', content = greeting iv\<rparr> t2
               in (Reply 201 (InterviewBody iv),
                   d1\<lparr>interview_messages := interview_messages d @ [m],
                      interview_messages_seq := mid m\<rparr>))"
  by (simp add: post_interviews_def createInterview_eq createInterviewMessage_eq Let_def
      split: option.splits)

lemma inserted_interview_simps [simp]:
  "status (inserted_interview d ins t) = ''in_progress''"
  "endedAt (inserted_interview d ins t) = None"
  "startedAt (inserted_interview d ins t) = t"
  "userId (inserted_interview d ins t) = userId ins"
  "targetRole (inserted_interview d ins t) = targetRole ins"
  "interviewerCharacter (inserted_interview d ins t) = interviewerCharacter ins"
  by (simp_all add: inserted_interview_def)

lemma inserted_interview_fresh: "x \<in> set (interviews d) \<Longrightarrow> iid x \<noteq> iid (inserted_interview d ins t)"
  using lastInsertRowid_fresh [of "iid x" "map iid (interviews d)" "interviews_seq d"]
  by (auto simp: inserted_interview_def)

lemma inserted_message_simps [simp]:
  "interviewId (inserted_message d ins t) = interviewId ins"
  "sender (inserted_message d ins t) = sender ins"
  "content (inserted_message d ins t) = content ins"
  "sentAt (inserted_message d ins t) = t"
  by (simp_all add: inserted_message_def)

lemma post_interviews_cases [case_names same new]:
  assumes "snd (post_interviews P d actor request t1 t2) = d \<Longrightarrow> thesis"
    and "\<And>ins m.
      interviews (snd (post_interviews P d actor request t1 t2))
         = interviews d @ [inserted_interview d ins t1] \<Longrightarrow>
      interview_messages (snd (post_interviews P d actor request t1 t2))
         = interview_messages d @ [m] \<Longrightarrow>
      interviewId m = iid (inserted_interview d ins t1) \<Longrightarrow>
      sender m = ''ai'' \<Longrightarrow> sentAt m = t2 \<Longrightarrow> thesis"
  shows thesis
proof (cases request)
  case None
  then show ?thesis using assms(1) by (simp add: post_interviews_eq)
next
  case (Some b)
  show ?thesis
  proof (cases "resume_authorized P d actor (resumeId b)")
    case False
    then show ?thesis using Some assms(1) by (simp add: post_interviews_eq)
  next
    case True
    let ?iv = "inserted_interview d (b\<lparr>userId := actor\<rparr>) t1"
    let ?m = "inserted_message
                (d\<lparr>interviews := interviews d @ [?iv], interviews_seq := iid ?iv\<rparr>)
                \<lparr>interviewId = iid ?iv, sender = ''ai'', content = greeting ?iv\<rparr> t2"
    show ?thesis
      by (rule assms(2) [of "b\<lparr>userId := actor\<rparr>" ?m])
        (use Some True in \<open>simp_all add: post_interviews_eq Let_def\<close>)
  qed
qed

lemma patch_interviews_end_cases [case_names same finished]:
  assumes "snd (patch_interviews_end d actor i t) = d \<Longrightarrow> thesis"
    and "interviews (snd (patch_interviews_end d actor i t))
         = map (\<lambda>r. if iid r = i then ended_row t r else r) (interviews d) \<Longrightarrow>
      interview_messages (snd (patch_interviews_end d actor i t)) = interview_messages d \<Longrightarrow>
      thesis"
  shows thesis
proof (cases "getInterview d i")
  case None
  then show ?thesis using assms(1) by (simp add: patch_interviews_end_def)
next
  case (Some iv)
  show ?thesis
  proof (cases "userId iv = actor")
    case False
    then show ?thesis using Some assms(1) by (simp add: patch_interviews_end_def)
  next
    case True
    show ?thesis
      by (rule assms(2))
        (use Some True getInterview_iid [OF Some] in
          \<open>simp_all add: patch_interviews_end_def updateInterviewStatus_def ended_row_def
             Let_def cong: if_cong\<close>)
  qed
qed

lemma post_messages_begin_cases [consumes 1, case_names rejected accepted]:
  assumes "post_messages_begin P d actor i text t = (r, d')"
    and "\<And>e. r = Inl e \<Longrightarrow> d' = d \<Longrightarrow> thesis"
    and "\<And>p. r = Inr p \<Longrightarrow> p_interview p \<in> set (interviews d) \<Longrightarrow>
      status (p_interview p) = ''in_progress'' \<Longrightarrow>
      interviews d' = interviews d \<Longrightarrow>
      interview_messages d' = interview_messages d @ [p_userMessage p] \<Longrightarrow>
      interviewId (p_userMessage p) = iid (p_interview p) \<Longrightarrow>
      sender (p_userMessage p) = ''user'' \<Longrightarrow> sentAt (p_userMessage p) = t \<Longrightarrow> thesis"
  shows thesis
proof (cases r)
  case (Inl e)
  have "d' = d"
    using assms(1) Inl
    by (simp add: post_messages_begin_def createInterviewMessage_eq Let_def
        split: option.splits if_splits)
  with Inl show ?thesis by (rule assms(2))
next
  case (Inr p)
  from post_messages_begin_InrD [OF assms(1) [unfolded Inr]] obtain iv c where
    h: "getInterview d i = Some iv" "userId iv = actor" "status iv = ''in_progress''"
      "text = Some c"
    by blast
  have e: "p = projr (fst (post_messages_begin P d actor i text t))
         \<and> d' = snd (post_messages_begin P d actor i text t)"
    using assms(1) Inr by simp
  show ?thesis
    by (rule assms(3) [OF Inr])
      (use e h getInterview_mem [OF h(1)] in
        \<open>simp_all add: post_messages_begin_accepts [OF h(1-3)] Let_def\<close>)
qed

lemma post_messages_finish_frame:
  "interviews (snd (post_messages_finish d p outcome t)) = interviews d"
  "\<exists>a. interview_messages (snd (post_messages_finish d p outcome t)) = interview_messages d @ [a]
     \<and> interviewId a = iid (p_interview p) \<and> sender a = ''ai'' \<and> sentAt a = t
     \<and> content a = response_content outcome"
  by (auto simp: post_messages_finish_eq Let_def)

lemma run_status_ok:
  "run ok P s \<Longrightarrow> \<forall>r\<in>set (interviews (store s)). status_ok r"
proof (induction rule: run.induct)
  case (start t)
  then show ?case by (simp add: initial_db_def)
next
  case (upload s t ins)
  then show ?case by (simp add: createResume_frame)
next
  case (parsed s i v)
  then show ?case by (simp add: updateResumeParsedContent_frame)
next
  case (create s t1 t2 actor request)
  show ?case
  proof (cases rule: post_interviews_cases [of P "store s" actor request t1 t2])
    case same
    with create show ?thesis by simp
  next
    case (new ins m)
    have "status_ok (inserted_interview (store s) ins t1)"
      by (simp add: status_ok_def)
    with new create show ?thesis by auto
  qed
next
  case (ended s t actor i)
  show ?case
  proof (cases rule: patch_interviews_end_cases [of "store s" actor i t])
    case same
    with ended show ?thesis by simp
  next
    case finished
    have "status_ok (ended_row t r)" for r
      by (simp add: status_ok_def ended_row_def)
    with finished ended show ?thesis by auto
  qed
next
  case (asked s t actor i body r d)
  from asked.hyps(3) show ?case
    by (cases rule: post_messages_begin_cases) (use asked in auto)
next
  case (answered s p t outcome)
  then show ?case by (simp add: post_messages_finish_frame)
next
  case (restart s)
  then show ?case by simp
qed

lemma steady_stamps_ok:
  "run not_before P s \<Longrightarrow> \<forall>r\<in>set (interviews (store s)). stamps_ok (clock s) r"
proof (induction rule: run.induct)
  case (start t)
  then show ?case by (simp add: initial_db_def)
next
  case (upload s t ins)
  then show ?case
    by (auto simp: createResume_frame not_before_def intro: stamps_ok_mono)
next
  case (parsed s i v)
  then show ?case by (simp add: updateResumeParsedContent_frame)
next
  case (create s t1 t2 actor request)
  have le: "getTime (clock s) \<le> getTime t2" "getTime t1 \<le> getTime t2"
    using create.hyps by (simp_all add: not_before_def)
  show ?case
  proof (cases rule: post_interviews_cases [of P "store s" actor request t1 t2])
    case same
    with create.IH le show ?thesis by (auto intro: stamps_ok_mono)
  next
    case (new ins m)
    have "stamps_ok t2 (inserted_interview (store s) ins t1)"
      using le by (simp add: stamps_ok_def)
    with new create.IH le show ?thesis by (auto intro: stamps_ok_mono)
  qed
next
  case (ended s t actor i)
  have le: "getTime (clock s) \<le> getTime t"
    using ended.hyps by (simp add: not_before_def)
  show ?case
  proof (cases rule: patch_interviews_end_cases [of "store s" actor i t])
    case same
    with ended.IH le show ?thesis by (auto intro: stamps_ok_mono)
  next
    case finished
    have "stamps_ok t (ended_row t r)" if "stamps_ok (clock s) r" for r
      using that le by (auto simp: stamps_ok_def ended_row_def)
    with finished ended.IH le show ?thesis by (auto intro: stamps_ok_mono)
  qed
next
  case (asked s t actor i body r d)
  have le: "getTime (clock s) \<le> getTime t"
    using asked.hyps by (simp add: not_before_def)
  from asked.hyps(3) show ?case
    by (cases rule: post_messages_begin_cases)
      (use asked.IH le in \<open>auto intro: stamps_ok_mono\<close>)
next
  case (answered s p t outcome)
  then show ?case
    by (auto simp: post_messages_finish_frame not_before_def intro: stamps_ok_mono)
next
  case (restart s)
  then show ?case by simp
qed

section \<open>The invariants hold in every reachable state\<close>

lemma sorted_snoc_le:
  "sorted (map f xs) \<Longrightarrow> \<forall>x\<in>set xs. f x \<le> (c::'b::linorder) \<Longrightarrow> c \<le> f y \<Longrightarrow>
   sorted (map f (xs @ [y]))"
  by (auto simp: sorted_append intro: order_trans)

lemma timed_keep:
  assumes "timed s" and "interview_messages (store s') = interview_messages (store s)"
    and "toISOString (clock s) \<le> toISOString (clock s')"
  shows "timed s'"
  using assms by (auto simp: timed_def intro: order_trans)

lemma timed_snoc:
  assumes "timed s" and "interview_messages (store s') = interview_messages (store s) @ [m]"
    and "toISOString (clock s) \<le> toISOString (sentAt m)" and "sentAt m = clock s'"
  shows "timed s'"
proof -
  have "sorted (map (\<lambda>m. toISOString (sentAt m)) (interview_messages (store s) @ [m]))"
    using assms(1,3)
    by (intro sorted_snoc_le [where c = "toISOString (clock s)"]) (auto simp: timed_def)
  then show ?thesis
    using assms by (auto simp: timed_def intro: order_trans)
qed

lemma steady_timed: "run not_before P s \<Longrightarrow> timed s"
proof (induction rule: run.induct)
  case (start t)
  then show ?case by (simp add: timed_def initial_db_def)
next
  case (upload s t ins)
  show ?case
    by (rule timed_keep [OF upload.IH])
      (use upload.hyps in \<open>simp_all add: createResume_frame not_before_def\<close>)
next
  case (parsed s i v)
  show ?case
    by (rule timed_keep [OF parsed.IH]) (simp_all add: updateResumeParsedContent_frame)
next
  case (create s t1 t2 actor request)
  have le: "toISOString (clock s) \<le> toISOString t2"
    using create.hyps by (auto simp: not_before_def intro: order_trans)
  show ?case
  proof (cases rule: post_interviews_cases [of P "store s" actor request t1 t2])
    case same
    show ?thesis by (rule timed_keep [OF create.IH]) (use same le in simp_all)
  next
    case (new ins m)
    show ?thesis by (rule timed_snoc [OF create.IH, of _ m]) (use new le in simp_all)
  qed
next
  case (ended s t actor i)
  have le: "toISOString (clock s) \<le> toISOString t"
    using ended.hyps by (simp add: not_before_def)
  show ?case
  proof (cases rule: patch_interviews_end_cases [of "store s" actor i t])
    case same
    show ?thesis by (rule timed_keep [OF ended.IH]) (use same le in simp_all)
  next
    case finished
    show ?thesis by (rule timed_keep [OF ended.IH]) (use finished le in simp_all)
  qed
next
  case (asked s t actor i body r d)
  have le: "toISOString (clock s) \<le> toISOString t"
    using asked.hyps by (simp add: not_before_def)
  from asked.hyps(3) show ?case
  proof (cases rule: post_messages_begin_cases)
    case (rejected e)
    show ?thesis by (rule timed_keep [OF asked.IH]) (use rejected le in simp_all)
  next
    case (accepted p)
    show ?thesis
      by (rule timed_snoc [OF asked.IH, of _ "p_userMessage p"]) (use accepted le in simp_all)
  qed
next
  case (answered s p t outcome)
  have le: "toISOString (clock s) \<le> toISOString t"
    using answered.hyps by (simp add: not_before_def)
  from post_messages_finish_frame(2) [of "store s" p outcome t] obtain a where
    a: "interview_messages (snd (post_messages_finish (store s) p outcome t))
          = interview_messages (store s) @ [a]" "sentAt a = t"
    by blast
  show ?case by (rule timed_snoc [OF answered.IH, of _ a]) (use a le in simp_all)
next
  case (restart s)
  show ?case by (rule timed_keep [OF restart.IH]) simp_all
qed

lemma ended_row_iid [simp]: "iid (ended_row t r) = iid r"
  by (simp add: ended_row_def)

lemma iid_image_ended:
  "iid ` set (map (\<lambda>r. if iid r = i then ended_row t r else r) rows) = iid ` set rows"
  by (induction rows) auto

lemma run_linked: "run ok P s \<Longrightarrow> linked s"
proof (induction rule: run.induct)
  case (start t)
  then show ?case by (simp add: linked_def initial_db_def)
next
  case (upload s t ins)
  then show ?case by (simp add: linked_def createResume_frame)
next
  case (parsed s i v)
  then show ?case by (simp add: linked_def updateResumeParsedContent_frame)
next
  case (create s t1 t2 actor request)
  show ?case
  proof (cases rule: post_interviews_cases [of P "store s" actor request t1 t2])
    case same
    with create show ?thesis by (simp add: linked_def)
  next
    case (new ins m)
    with create show ?thesis by (auto simp: linked_def)
  qed
next
  case (ended s t actor i)
  show ?case
  proof (cases rule: patch_interviews_end_cases [of "store s" actor i t])
    case same
    with ended show ?thesis by (simp add: linked_def)
  next
    case finished
    have "iid ` set (interviews (snd (patch_interviews_end (store s) actor i t)))
        = iid ` set (interviews (store s))"
      by (simp only: finished(1) iid_image_ended)
    with ended finished(2) show ?thesis by (simp add: linked_def)
  qed
next
  case (asked s t actor i body r d)
  from asked.hyps(3) show ?case
  proof (cases rule: post_messages_begin_cases)
    case (rejected e)
    with asked show ?thesis by (simp add: linked_def)
  next
    case (accepted p)
    with asked show ?thesis by (auto simp: linked_def)
  qed
next
  case (answered s p t outcome)
  from post_messages_finish_frame(2) [of "store s" p outcome t] obtain a where
    a: "interview_messages (snd (post_messages_finish (store s) p outcome t))
          = interview_messages (store s) @ [a]" "interviewId a = iid (p_interview p)"
    by blast
  with answered show ?case
    by (auto simp: linked_def post_messages_finish_frame(1) dest: notin_set_remove1)
next
  case (restart s)
  then show ?case by (simp add: linked_def)
qed

lemma message_log_same:
  "interview_messages d' = interview_messages d \<Longrightarrow> message_log d' i = message_log d i"
  by (simp add: message_log_def)

lemma message_log_snoc:
  "interview_messages d' = interview_messages d @ [m] \<Longrightarrow>
   message_log d' i = (if interviewId m = i then message_log d i @ [m] else message_log d i)"
  by (simp add: message_log_def)

lemma linked_fresh:
  assumes "linked s" and "j \<notin> iid ` set (interviews (store s))"
  shows "message_log (store s) j = []" and "waiting (in_flight s) j = 0"
proof -
  show "message_log (store s) j = []"
    using assms by (auto simp: linked_def message_log_def filter_empty_conv)
  show "waiting (in_flight s) j = 0"
    using assms by (auto simp: linked_def waiting_def filter_empty_conv)
qed

lemma inserted_interview_notin:
  "iid (inserted_interview d ins t) \<notin> iid ` set (interviews d)"
  using inserted_interview_fresh [of _ d ins t] by (auto simp: image_iff) metis

lemma run_greeted: "run ok P s \<Longrightarrow> greeted s"
proof (induction rule: run.induct)
  case (start t)
  then show ?case by (simp add: greeted_def initial_db_def)
next
  case (upload s t ins)
  then show ?case
    by (simp add: greeted_def createResume_frame message_log_same [OF createResume_frame(2)])
next
  case (parsed s i v)
  then show ?case
    by (simp add: greeted_def updateResumeParsedContent_frame
        message_log_same [OF updateResumeParsedContent_frame(2)])
next
  case (create s t1 t2 actor request)
  show ?case
  proof (cases rule: post_interviews_cases [of P "store s" actor request t1 t2])
    case same
    with create show ?thesis by (simp add: greeted_def)
  next
    case (new ins m)
    let ?iv = "inserted_interview (store s) ins t1"
    have e: "message_log (store s) (iid ?iv) = []"
      by (rule linked_fresh(1) [OF run_linked [OF create.hyps(1)] inserted_interview_notin])
    have "\<exists>m' ms. message_log (snd (post_interviews P (store s) actor request t1 t2)) (iid r)
             = m' # ms \<and> sender m' = ''ai''"
      if "r \<in> set (interviews (store s)) \<or> r = ?iv" for r
    proof (cases "r = ?iv")
      case True
      then show ?thesis using new e by (simp add: message_log_snoc [OF new(2)])
    next
      case False
      with that have r: "r \<in> set (interviews (store s))" by simp
      then have "iid r \<noteq> iid ?iv" by (rule inserted_interview_fresh)
      then show ?thesis
        using r create.IH new(3) by (simp add: message_log_snoc [OF new(2)] greeted_def)
    qed
    then show ?thesis using new(1) by (auto simp: greeted_def)
  qed
next
  case (ended s t actor i)
  show ?case
  proof (cases rule: patch_interviews_end_cases [of "store s" actor i t])
    case same
    with ended show ?thesis by (simp add: greeted_def)
  next
    case finished
    have "\<exists>r\<in>set (interviews (store s)). iid r = iid r'"
      if "r' \<in> set (interviews (snd (patch_interviews_end (store s) actor i t)))" for r'
      using that unfolding finished(1) by (auto split: if_splits)
    then show ?thesis
      using ended.IH by (fastforce simp: greeted_def message_log_same [OF finished(2)])
  qed
next
  case (asked s t actor i body r d)
  from asked.hyps(3) show ?case
  proof (cases rule: post_messages_begin_cases)
    case (rejected e)
    with asked show ?thesis by (simp add: greeted_def)
  next
    case (accepted p)
    show ?thesis
      using asked.IH accepted(4)
      by (fastforce simp: greeted_def message_log_snoc [OF accepted(5)])
  qed
next
  case (answered s p t outcome)
  from post_messages_finish_frame(2) [of "store s" p outcome t] obtain a where
    a: "interview_messages (snd (post_messages_finish (store s) p outcome t))
          = interview_messages (store s) @ [a]"
    by blast
  show ?case
    using answered.IH
    by (fastforce simp: greeted_def message_log_snoc [OF a] post_messages_finish_frame(1))
next
  case (restart s)
  then show ?case by (simp add: greeted_def)
qed

lemma replies_snoc: "replies (ms @ [m]) = replies ms + (if sender m = ''ai'' then 1 else 0)"
  by (simp add: replies_def)

lemma turns_snoc: "turns (ms @ [m]) = turns ms + (if sender m = ''user'' then 1 else 0)"
  by (simp add: turns_def)

lemma take_snoc: "take n (ms @ [m]) = (if n \<le> length ms then take n ms else ms @ [m])"
  by (simp add: take_append)

lemma waiting_remove1:
  "p \<in> set fl \<Longrightarrow>
   waiting (remove1 p fl) i + (if iid (p_interview p) = i then 1 else 0) = waiting fl i"
  by (induction fl) (auto simp: waiting_def)

lemma prompted_keep:
  assumes "prompted s" and "interview_messages (store s') = interview_messages (store s)"
    and "\<And>i. waiting (in_flight s') i \<le> waiting (in_flight s) i"
  shows "prompted s'"
  unfolding prompted_def
proof (intro conjI allI)
  fix i n
  have "replies (message_log (store s) i) + waiting (in_flight s') i
      \<le> replies (message_log (store s) i) + waiting (in_flight s) i"
    using assms(3) by simp
  also have "\<dots> \<le> turns (message_log (store s) i) + 1"
    using assms(1) by (simp add: prompted_def)
  finally show "replies (message_log (store s') i) + waiting (in_flight s') i
      \<le> turns (message_log (store s') i) + 1"
    by (simp add: message_log_same [OF assms(2)])
  show "replies (take n (message_log (store s') i)) \<le> turns (take n (message_log (store s') i)) + 1"
    using assms(1) by (simp add: prompted_def message_log_same [OF assms(2)])
qed

lemma prompted_snoc:
  assumes "prompted s"
    and "interview_messages (store s') = interview_messages (store s) @ [m]"
    and "\<And>i. i \<noteq> interviewId m \<Longrightarrow> waiting (in_flight s') i \<le> waiting (in_flight s) i"
    and "replies (message_log (store s) (interviewId m) @ [m]) + waiting (in_flight s') (interviewId m)
           \<le> turns (message_log (store s) (interviewId m) @ [m]) + 1"
  shows "prompted s'"
  unfolding prompted_def
proof (intro conjI allI)
  fix i n
  show total: "replies (message_log (store s') i) + waiting (in_flight s') i
      \<le> turns (message_log (store s') i) + 1" for i
  proof (cases "interviewId m = i")
    case True
    then show ?thesis using assms(4) by (simp add: message_log_snoc [OF assms(2)])
  next
    case False
    have "replies (message_log (store s) i) + waiting (in_flight s') i
      \<le> replies (message_log (store s) i) + waiting (in_flight s) i"
      using assms(3) [of i] False by simp
    also have "\<dots> \<le> turns (message_log (store s) i) + 1"
      using assms(1) by (simp add: prompted_def)
    finally show ?thesis using False by (simp add: message_log_snoc [OF assms(2)])
  qed
  show "replies (take n (message_log (store s') i)) \<le> turns (take n (message_log (store s') i)) + 1"
  proof (cases "interviewId m = i \<and> length (message_log (store s) i) < n")
    case True
    then have "take n (message_log (store s') i) = message_log (store s') i"
      by (auto simp: message_log_snoc [OF assms(2)])
    then show ?thesis using total [of i] by simp
  next
    case False
    then have "take n (message_log (store s') i) = take n (message_log (store s) i)"
      by (auto simp: message_log_snoc [OF assms(2)] take_snoc)
    then show ?thesis using assms(1) by (simp add: prompted_def)
  qed
qed

lemma run_prompted: "run ok P s \<Longrightarrow> prompted s"
proof (induction rule: run.induct)
  case (start t)
  then show ?case
    by (simp add: prompted_def initial_db_def message_log_def replies_def waiting_def)
next
  case (upload s t ins)
  show ?case by (rule prompted_keep [OF upload.IH]) (simp_all add: createResume_frame)
next
  case (parsed s i v)
  show ?case
    by (rule prompted_keep [OF parsed.IH]) (simp_all add: updateResumeParsedContent_frame)
next
  case (create s t1 t2 actor request)
  show ?case
  proof (cases rule: post_interviews_cases [of P "store s" actor request t1 t2])
    case same
    show ?thesis by (rule prompted_keep [OF create.IH]) (simp_all add: same)
  next
    case (new ins m)
    let ?iv = "inserted_interview (store s) ins t1"
    note fresh = linked_fresh [OF run_linked [OF create.hyps(1)]
        inserted_interview_notin [of "store s" ins t1]]
    show ?thesis
      by (rule prompted_snoc [OF create.IH, of _ m])
        (use new fresh in \<open>simp_all add: replies_def turns_def\<close>)
  qed
next
  case (ended s t actor i)
  show ?case
  proof (cases rule: patch_interviews_end_cases [of "store s" actor i t])
    case same
    show ?thesis by (rule prompted_keep [OF ended.IH]) (simp_all add: same)
  next
    case finished
    show ?thesis by (rule prompted_keep [OF ended.IH]) (simp_all add: finished)
  qed
next
  case (asked s t actor i body r d)
  from asked.hyps(3) show ?case
  proof (cases rule: post_messages_begin_cases)
    case (rejected e)
    show ?thesis by (rule prompted_keep [OF asked.IH]) (simp_all add: rejected)
  next
    case (accepted p)
    have "replies (message_log (store s) (iid (p_interview p)))
            + waiting (in_flight s) (iid (p_interview p))
          \<le> turns (message_log (store s) (iid (p_interview p))) + 1"
      using asked.IH by (simp add: prompted_def)
    then show ?thesis
      by (intro prompted_snoc [OF asked.IH, of _ "p_userMessage p"])
        (use accepted in \<open>simp_all add: replies_snoc turns_snoc waiting_def\<close>)
  qed
next
  case (answered s p t outcome)
  from post_messages_finish_frame(2) [of "store s" p outcome t] obtain a where
    a: "interview_messages (snd (post_messages_finish (store s) p outcome t))
          = interview_messages (store s) @ [a]"
      "interviewId a = iid (p_interview p)" "sender a = ''ai''"
    by blast
  have w: "waiting (remove1 p (in_flight s)) i
      + (if iid (p_interview p) = i then 1 else 0) = waiting (in_flight s) i" for i
    by (rule waiting_remove1 [OF answered.hyps(2)])
  have "replies (message_log (store s) (iid (p_interview p)))
            + waiting (in_flight s) (iid (p_interview p))
          \<le> turns (message_log (store s) (iid (p_interview p))) + 1"
    using answered.IH by (simp add: prompted_def)
  then have "replies (message_log (store s) (iid (p_interview p)) @ [a])
            + waiting (remove1 p (in_flight s)) (iid (p_interview p))
          \<le> turns (message_log (store s) (iid (p_interview p)) @ [a]) + 1"
    using w [of "iid (p_interview p)"] a(3) by (simp add: replies_snoc turns_snoc)
  moreover have "waiting (remove1 p (in_flight s)) i \<le> waiting (in_flight s) i" for i
    using w [of i] by (simp split: if_splits)
  ultimately show ?case
    by (intro prompted_snoc [OF answered.IH, of _ a]) (use a in simp_all)
next
  case (restart s)
  show ?case
    by (rule prompted_keep [OF restart.IH]) (simp_all add: waiting_def)
qed


section \<open>The lifecycle of an interview\<close>

lemma run_mono:
  "run ok P s \<Longrightarrow> (\<And>a b. ok a b \<Longrightarrow> ok' a b) \<Longrightarrow> run ok' P s"
proof (induction rule: run.induct)
  case (asked s t actor i body r d)
  show ?case
    by (rule run.asked [OF asked.IH [OF asked.prems] asked.prems [OF asked.hyps(2)] asked.hyps(3)])
qed (auto intro: run.intros)

lemma steady_reachable: "steady P s \<Longrightarrow> reachable P s"
  unfolding steady_def reachable_def by (erule run_mono) (simp add: any_reading_def)

text \<open>Example runs: the interview of the scenario under a steady clock.\<close>

lemma steady_rook_created:
  "steady no_json \<lparr>store = rook_db ''in_progress'' None, clock = t10, in_flight = []\<rparr>"
  unfolding steady_def
  using run.create [OF run.start [where ok = not_before and P = no_json and t = t0],
      where ?t1.0 = t10 and ?t2.0 = t10 and actor = 1 and request = "Some rook_request"]
  by (simp add: not_before_def post_interviews_def resume_authorized_def or_null_def
      createInterview_def createInterviewMessage_def getInterview_def lastInsertRowid_def
      initial_db_def Let_def)

lemma steady_rook_completed:
  "steady no_json \<lparr>store = rook_db ''completed'' (Some t20), clock = t20, in_flight = []\<rparr>"
  using run.ended [OF steady_rook_created [unfolded steady_def], where t = t20 and actor = 1
      and i = 1]
  by (simp add: steady_def not_before_def patch_interviews_end_def updateInterviewStatus_def
      getInterview_def Let_def)

lemma steady_rook_asked:
  "steady no_json
     \<lparr>store = rook_asked go_message, clock = t30, in_flight = [rook_pending go_message]\<rparr>"
  using run.asked [OF steady_rook_created [unfolded steady_def], where t = t30 and actor = 1
      and i = 1 and ?text = "Some ''I have 3 years of Go experience''"
      and r = "Inr (rook_pending go_message)" and d = "rook_asked go_message"]
  by (simp add: steady_def not_before_def post_messages_begin_def getInterview_def
      createInterviewMessage_def lastInsertRowid_def resumeContext_def or_null_def Let_def)

text \<open>The same two requests when the clock is set back to instant 5 after the creation.\<close>

lemma reachable_rook_created:
  "reachable no_json \<lparr>store = rook_db ''in_progress'' None, clock = t10, in_flight = []\<rparr>"
  by (rule steady_reachable [OF steady_rook_created])

lemma reachable_rook_completed_early:
  "reachable no_json \<lparr>store = rook_db ''completed'' (Some t5), clock = t5, in_flight = []\<rparr>"
  using run.ended [OF reachable_rook_created [unfolded reachable_def], where t = t5
      and actor = 1 and i = 1]
  by (simp add: reachable_def any_reading_def patch_interviews_end_def
      updateInterviewStatus_def getInterview_def Let_def)

lemma reachable_rook_asked_early:
  "reachable no_json
     \<lparr>store = rook_asked early_message, clock = t5, in_flight = [rook_pending early_message]\<rparr>"
  using run.asked [OF reachable_rook_created [unfolded reachable_def], where t = t5
      and actor = 1 and i = 1 and ?text = "Some ''I have 3 years of Go experience''"
      and r = "Inr (rook_pending early_message)" and d = "rook_asked early_message"]
  by (simp add: reachable_def any_reading_def post_messages_begin_def getInterview_def
      createInterviewMessage_def lastInsertRowid_def resumeContext_def or_null_def Let_def)

text \<open>
  C10. No route assigns the status \<^verbatim>\<open>cancelled\<close>: in every state reachable through
  the routes, whatever the clock reads, the status of every interview is
  \<^verbatim>\<open>in_progress\<close> or \<^verbatim>\<open>completed\<close>.
\<close>

theorem reachable_never_cancelled:
  assumes "reachable P s"
  shows "\<forall>r\<in>set (interviews (store s)).
           (status r = ''in_progress'' \<or> status r = ''completed'') \<and> status r \<noteq> ''cancelled''"
  using run_status_ok [OF assms [unfolded reachable_def]] by (auto simp: status_ok_def)

theorem reachable_never_cancelled_witness:
  "reachable no_json \<lparr>store = rook_db ''completed'' (Some t20), clock = t20, in_flight = []\<rparr>
   \<and> status (rook_interview ''completed'' (Some t20)) = ''completed''
   \<and> status (rook_interview ''completed'' (Some t20)) \<noteq> ''cancelled''"
  using reachable_never_cancelled [OF steady_reachable [OF steady_rook_completed]]
    steady_reachable [OF steady_rook_completed]
  by simp

text \<open>
  C6, as the code has it. In every reachable state, an interview that is
  \<^verbatim>\<open>in_progress\<close> has no end timestamp and an interview that is not has one. The end
  timestamp is at or after the start timestamp when the clock was steady; the code
  compares no timestamps, so an end stamped by a clock set back is before the start.
\<close>

theorem reachable_end_timestamp:
  assumes "reachable P s"
  shows "\<forall>r\<in>set (interviews (store s)).
           (status r = ''in_progress'' \<longrightarrow> endedAt r = None) \<and>
           (status r \<noteq> ''in_progress'' \<longrightarrow>
              (\<exists>e. endedAt r = Some e \<and>
                   (steady P s \<longrightarrow> getTime (startedAt r) \<le> getTime e)))"
proof
  fix r
  assume r: "r \<in> set (interviews (store s))"
  have a: "status_ok r"
    using run_status_ok [OF assms [unfolded reachable_def]] r by blast
  have "stamps_ok (clock s) r" if "steady P s"
    using steady_stamps_ok [OF that [unfolded steady_def]] r by blast
  then have "getTime (startedAt r) \<le> getTime e" if "steady P s" "endedAt r = Some e" for e
    using that by (simp add: stamps_ok_def)
  with a show "(status r = ''in_progress'' \<longrightarrow> endedAt r = None) \<and>
           (status r \<noteq> ''in_progress'' \<longrightarrow>
              (\<exists>e. endedAt r = Some e \<and>
                   (steady P s \<longrightarrow> getTime (startedAt r) \<le> getTime e)))"
    by (auto simp: status_ok_def)
qed

theorem reachable_end_before_start_counterexample:
  "reachable no_json \<lparr>store = rook_db ''completed'' (Some t5), clock = t5, in_flight = []\<rparr>
   \<and> status (rook_interview ''completed'' (Some t5)) \<noteq> ''in_progress''
   \<and> endedAt (rook_interview ''completed'' (Some t5)) = Some t5
   \<and> getTime t5 < getTime (startedAt (rook_interview ''completed'' (Some t5)))
   \<and> snd (patch_interviews_end (rook_db ''in_progress'' None) 1 1 t5)
       = rook_db ''completed'' (Some t5)"
  using reachable_rook_completed_early
  by (simp add: patch_interviews_end_def updateInterviewStatus_def getInterview_def Let_def)

theorem reachable_end_timestamp_witness:
  "reachable no_json \<lparr>store = rook_db ''completed'' (Some t20), clock = t20, in_flight = []\<rparr>
   \<and> steady no_json \<lparr>store = rook_db ''completed'' (Some t20), clock = t20, in_flight = []\<rparr>
   \<and> endedAt (rook_interview ''completed'' (Some t20)) = Some t20
   \<and> getTime (startedAt (rook_interview ''completed'' (Some t20))) \<le> getTime t20"
  using reachable_end_timestamp [OF steady_reachable [OF steady_rook_completed]]
    steady_reachable [OF steady_rook_completed] steady_rook_completed
  by simp

lemma getInterviewMessages_steady:
  assumes "steady P s"
  shows "getInterviewMessages (store s) i = message_log (store s) i"
proof -
  have "sorted (map (\<lambda>m. toISOString (sentAt m)) (interview_messages (store s)))"
    using steady_timed [OF assms [unfolded steady_def]] by (simp add: timed_def)
  then have "sorted (map (\<lambda>m. toISOString (sentAt m))
      (filter (\<lambda>m. interviewId m = i) (interview_messages (store s))))"
    by (rule sorted_filter)
  then show ?thesis
    by (simp add: getInterviewMessages_def message_log_def sort_key_id_if_sorted)
qed

lemma greeting_names:
  "sublist (interviewerCharacter r) (greeting r)" "sublist (targetRole r) (greeting r)"
proof -
  have "greeting r = ''Hello! I'm your '' @ interviewerCharacter r @
     ('' interviewer. Welcome to ChessView. Let's start with a brief introduction. '' @
      ''Could you tell me a bit about yourself and your background in '' @
      targetRole r @ ''?'')"
    by (simp add: greeting_def)
  then show "sublist (interviewerCharacter r) (greeting r)"
    unfolding sublist_def by blast
  have "greeting r = (''Hello! I'm your '' @ interviewerCharacter r @
     '' interviewer. Welcome to ChessView. Let's start with a brief introduction. '' @
     ''Could you tell me a bit about yourself and your background in '') @
     targetRole r @ ''?''"
    by (simp add: greeting_def)
  then show "sublist (targetRole r) (greeting r)"
    unfolding sublist_def by blast
qed

text \<open>
  C3, as the code has it. An interview created through the route has exactly one
  message when the handler answers, from \<^verbatim>\<open>ai\<close>, whose content is the fixed greeting
  and contains the persona and the target role of the interview; the handler takes no
  completion service. In every reachable state the first message of every interview
  in the order of insertion is that greeting, from \<^verbatim>\<open>ai\<close>; in the order of the sent
  timestamp it is the first when the clock was steady. The code compares no
  timestamps, so a later message stamped by a clock set back sorts before it.
\<close>

theorem first_message_from_ai:
  assumes "reachable P s"
  shows "(\<forall>r\<in>set (interviews (store s)).
            \<exists>m ms. message_log (store s) (iid r) = m # ms \<and> sender m = ''ai'')
       \<and> (steady P s \<longrightarrow>
            (\<forall>r\<in>set (interviews (store s)).
               \<exists>m ms. getInterviewMessages (store s) (iid r) = m # ms \<and> sender m = ''ai''))
       \<and> (\<forall>r d'. post_interviews P (store s) actor request t1 t2 = (Reply 201 (InterviewBody r), d')
            \<longrightarrow> (\<exists>m. getInterviewMessages d' (iid r) = [m]
                    \<and> interview_messages d' = interview_messages (store s) @ [m]
                    \<and> sender m = ''ai'' \<and> content m = greeting r
                    \<and> sublist (interviewerCharacter r) (content m)
                    \<and> sublist (targetRole r) (content m)))"
proof (intro conjI allI impI)
  show g: "\<forall>r\<in>set (interviews (store s)).
            \<exists>m ms. message_log (store s) (iid r) = m # ms \<and> sender m = ''ai''"
    using run_greeted [OF assms [unfolded reachable_def]] by (simp add: greeted_def)
  show "\<forall>r\<in>set (interviews (store s)).
            \<exists>m ms. getInterviewMessages (store s) (iid r) = m # ms \<and> sender m = ''ai''"
    if "steady P s"
    using g by (simp add: getInterviewMessages_steady [OF that])
next
  fix r d'
  assume a: "post_interviews P (store s) actor request t1 t2 = (Reply 201 (InterviewBody r), d')"
  from a obtain b where b: "request = Some b" "resume_authorized P (store s) actor (resumeId b)"
    by (cases request) (auto simp: post_interviews_eq split: if_splits)
  let ?iv = "inserted_interview (store s) (b\<lparr>userId := actor\<rparr>) t1"
  let ?m = "inserted_message
              ((store s)\<lparr>interviews := interviews (store s) @ [?iv], interviews_seq := iid ?iv\<rparr>)
              \<lparr>interviewId = iid ?iv, sender = ''ai'', content = greeting ?iv\<rparr> t2"
  have "snd (post_interviews P (store s) actor request t1 t2) = d'"
    and "fst (post_interviews P (store s) actor request t1 t2) = Reply 201 (InterviewBody r)"
    using a by simp_all
  then have "d' = (store s)\<lparr>interviews := interviews (store s) @ [?iv], interviews_seq := iid ?iv,
        interview_messages := interview_messages (store s) @ [?m],
        interview_messages_seq := mid ?m\<rparr>" and iv: "r = ?iv"
    using b by (auto simp: post_interviews_eq Let_def)
  then have d': "interview_messages d' = interview_messages (store s) @ [?m]"
    by simp
  have "message_log (store s) (iid ?iv) = []"
    by (rule linked_fresh(1) [OF run_linked [OF assms [unfolded reachable_def]]
          inserted_interview_notin])
  then have "message_log d' (iid r) = [?m]"
    using iv by (simp add: message_log_snoc [OF d'])
  then have "getInterviewMessages d' (iid r) = [?m]"
    by (simp add: getInterviewMessages_def message_log_def)
  then show "\<exists>m. getInterviewMessages d' (iid r) = [m]
                    \<and> interview_messages d' = interview_messages (store s) @ [m]
                    \<and> sender m = ''ai'' \<and> content m = greeting r
                    \<and> sublist (interviewerCharacter r) (content m)
                    \<and> sublist (targetRole r) (content m)"
    using iv d' greeting_names [of r] by simp
qed

theorem first_message_by_timestamp_counterexample:
  "reachable no_json
     \<lparr>store = rook_asked early_message, clock = t5, in_flight = [rook_pending early_message]\<rparr>
   \<and> getInterviewMessages (rook_asked early_message) 1 = [early_message, rook_seed]
   \<and> sender early_message = ''user''
   \<and> interview_messages (rook_asked early_message) = [rook_seed, early_message]"
  using reachable_rook_asked_early by (simp add: getInterviewMessages_def)

theorem first_message_from_ai_witness:
  "reachable no_json
     \<lparr>store = rook_asked go_message, clock = t30, in_flight = [rook_pending go_message]\<rparr>
   \<and> steady no_json
     \<lparr>store = rook_asked go_message, clock = t30, in_flight = [rook_pending go_message]\<rparr>
   \<and> message_log (rook_asked go_message) 1 = [rook_seed, go_message]
   \<and> getInterviewMessages (rook_asked go_message) 1 = [rook_seed, go_message]
   \<and> sender rook_seed = ''ai''
   \<and> sublist ''rook'' (content rook_seed) \<and> sublist ''backend'' (content rook_seed)"
proof -
  let ?s = "\<lparr>store = rook_db ''in_progress'' None, clock = t10, in_flight = []\<rparr>"
  let ?s0 = "\<lparr>store = initial_db, clock = t0, in_flight = []\<rparr>"
  have r0: "reachable no_json ?s0" unfolding reachable_def by (rule run.start)
  have c: "post_interviews no_json (store ?s0) 1 (Some rook_request) t10 t10
       = (Reply 201 (InterviewBody (rook_interview ''in_progress'' None)),
          rook_db ''in_progress'' None)"
    by (simp add: post_interviews_def resume_authorized_def or_null_def createInterview_def
      createInterviewMessage_def getInterview_def lastInsertRowid_def initial_db_def Let_def)
  have d: "getInterviewMessages (rook_db ''in_progress'' None) 1 = [rook_seed]"
    by (simp add: getInterviewMessages_def)
  from first_message_from_ai [OF r0, of 1 "Some rook_request" t10 t10] c
  obtain m where "getInterviewMessages (rook_db ''in_progress'' None)
        (iid (rook_interview ''in_progress'' None)) = [m]"
      "sublist (interviewerCharacter (rook_interview ''in_progress'' None)) (content m)"
      "sublist (targetRole (rook_interview ''in_progress'' None)) (content m)"
    by blast
  with d have e: "sublist ''rook'' (content rook_seed)" "sublist ''backend'' (content rook_seed)"
    by simp_all
  have "message_log (rook_asked go_message) 1 = [rook_seed, go_message]"
    "getInterviewMessages (rook_asked go_message) 1 = [rook_seed, go_message]"
    by (simp_all add: message_log_def getInterviewMessages_def)
  with e steady_rook_asked steady_reachable [OF steady_rook_asked] show ?thesis by simp
qed

lemma post_messages_begin_request:
  assumes "post_messages_begin P d actor i body t = (Inr p, d1)"
  shows "interview_messages d1 = interview_messages d @ [p_userMessage p]"
    and "interviewId (p_userMessage p) = i" and "iid (p_interview p) = i"
    and "sender (p_userMessage p) = ''user''"
    and "body = Some (content (p_userMessage p))"
    and "(''user'', content (p_userMessage p)) \<in> set (messages (p_request p))"
proof -
  from post_messages_begin_InrD [OF assms] obtain iv c where
    h: "getInterview d i = Some iv" "userId iv = actor" "status iv = ''in_progress''"
      "body = Some c"
    by blast
  note e = assms [unfolded h(4) post_messages_begin_accepts [OF h(1-3)] Let_def]
  let ?u = "inserted_message d \<lparr>interviewId = iid iv, sender = ''user'', content = c\<rparr> t"
  let ?d1 = "d\<lparr>interview_messages := interview_messages d @ [?u],
               interview_messages_seq := mid ?u\<rparr>"
  have p: "p_userMessage p = ?u" "p_interview p = iv" "d1 = ?d1"
    "p_request p = completion_request (interviewerCharacter iv) (targetRole iv)
       (experienceLevel iv) (getInterviewMessages ?d1 (iid iv)) (resumeContext P ?d1 iv)"
    using e by auto
  show "interview_messages d1 = interview_messages d @ [p_userMessage p]"
    and "interviewId (p_userMessage p) = i" and "iid (p_interview p) = i"
    and "sender (p_userMessage p) = ''user''"
    and "body = Some (content (p_userMessage p))"
    using p h getInterview_iid [OF h(1)] by simp_all
  have "?u \<in> set (getInterviewMessages ?d1 (iid iv))"
    by (simp add: getInterviewMessages_def)
  then have "(''user'', c) \<in> set (formattedMessages (getInterviewMessages ?d1 (iid iv)))"
    by (force simp: formattedMessages_def)
  then show "(''user'', content (p_userMessage p)) \<in> set (messages (p_request p))"
    using p by (simp add: completion_request_def)
qed

text \<open>
  C5. The handler persists the candidate's message before it invokes the completion
  service: the store it leaves at the call ends with that message, which is part of
  the request sent, and the reply is appended after it. In every reachable state,
  whatever the clock reads, also with requests interleaved or lost in a restart,
  every request that waits for the service has its user message in the store, and in
  every prefix of the log of an interview, in the order of insertion, the replies
  from \<^verbatim>\<open>ai\<close> are at most the seeded greeting plus one per user turn: no reply stands
  without a turn that prompted it. Under a steady clock the same holds of the
  messages as \<open>getInterviewMessages\<close> returns them.
\<close>

theorem user_turn_precedes_reply:
  assumes "reachable P s"
  shows "(\<forall>i n. replies (take n (message_log (store s) i))
               \<le> turns (take n (message_log (store s) i)) + 1)
       \<and> (steady P s \<longrightarrow>
            (\<forall>i n. replies (take n (getInterviewMessages (store s) i))
                 \<le> turns (take n (getInterviewMessages (store s) i)) + 1))
       \<and> (\<forall>p\<in>set (in_flight s).
            p_userMessage p \<in> set (interview_messages (store s)) \<and>
            sender (p_userMessage p) = ''user'' \<and>
            interviewId (p_userMessage p) = iid (p_interview p))
       \<and> (\<forall>actor i body t p d1.
            post_messages_begin P (store s) actor i body t = (Inr p, d1) \<longrightarrow>
              interview_messages d1 = interview_messages (store s) @ [p_userMessage p] \<and>
              sender (p_userMessage p) = ''user'' \<and> interviewId (p_userMessage p) = i \<and>
              body = Some (content (p_userMessage p)) \<and>
              (''user'', content (p_userMessage p)) \<in> set (messages (p_request p)))
       \<and> (\<forall>p outcome t. \<exists>a.
            interview_messages (snd (post_messages_finish (store s) p outcome t))
              = interview_messages (store s) @ [a] \<and>
            sender a = ''ai'' \<and> interviewId a = iid (p_interview p))"
proof (intro conjI)
  show g: "\<forall>i n. replies (take n (message_log (store s) i))
               \<le> turns (take n (message_log (store s) i)) + 1"
    using run_prompted [OF assms [unfolded reachable_def]] by (simp add: prompted_def)
  show "steady P s \<longrightarrow>
            (\<forall>i n. replies (take n (getInterviewMessages (store s) i))
                 \<le> turns (take n (getInterviewMessages (store s) i)) + 1)"
    using g by (simp add: getInterviewMessages_steady)
  show "\<forall>p\<in>set (in_flight s).
            p_userMessage p \<in> set (interview_messages (store s)) \<and>
            sender (p_userMessage p) = ''user'' \<and>
            interviewId (p_userMessage p) = iid (p_interview p)"
    using run_linked [OF assms [unfolded reachable_def]] by (simp add: linked_def)
  show "\<forall>actor i body t p d1.
            post_messages_begin P (store s) actor i body t = (Inr p, d1) \<longrightarrow>
              interview_messages d1 = interview_messages (store s) @ [p_userMessage p] \<and>
              sender (p_userMessage p) = ''user'' \<and> interviewId (p_userMessage p) = i \<and>
              body = Some (content (p_userMessage p)) \<and>
              (''user'', content (p_userMessage p)) \<in> set (messages (p_request p))"
    by (intro allI impI conjI; erule post_messages_begin_request)
  show "\<forall>p outcome t. \<exists>a.
            interview_messages (snd (post_messages_finish (store s) p outcome t))
              = interview_messages (store s) @ [a] \<and>
            sender a = ''ai'' \<and> interviewId a = iid (p_interview p)"
    using post_messages_finish_frame(2) by blast
qed

theorem user_turn_precedes_reply_witness:
  "reachable no_json
     \<lparr>store = rook_asked early_message, clock = t5, in_flight = [rook_pending early_message]\<rparr>
   \<and> message_log (rook_asked early_message) 1 = [rook_seed, early_message]
   \<and> replies [rook_seed, early_message] \<le> turns [rook_seed, early_message] + 1
   \<and> p_userMessage (rook_pending early_message) \<in> set [rook_seed, early_message]
   \<and> sender (p_userMessage (rook_pending early_message)) = ''user''"
proof -
  have "message_log (rook_asked early_message) 1 = [rook_seed, early_message]"
    by (simp add: message_log_def)
  moreover have "replies (take 2 (message_log (rook_asked early_message) 1))
      \<le> turns (take 2 (message_log (rook_asked early_message) 1)) + 1"
    using user_turn_precedes_reply [OF reachable_rook_asked_early] by simp
  ultimately show ?thesis
    using reachable_rook_asked_early by simp
qed

lemma post_messages_interviews:
  "interviews (snd (post_messages P openai d actor i body t1 t2)) = interviews d"
proof (cases "post_messages_begin P d actor i body t1")
  case (Pair r d1)
  then show ?thesis
    by (cases rule: post_messages_begin_cases)
      (simp_all add: Pair post_messages_def post_messages_finish_frame(1))
qed

lemma post_interviews_interviews:
  "\<exists>new. interviews (snd (post_interviews P d actor request t1 t2)) = interviews d @ new"
  by (cases rule: post_interviews_cases [of P d actor request t1 t2]) auto

text \<open>
  C1, as the code has it. Ending an interview does not look at its status: for every
  interview the caller owns the route answers 200, sets the status \<^verbatim>\<open>completed\<close> and
  the end timestamp, and leaves every other interview and every message as it was.
  So a completed interview keeps its status and a cancelled one becomes completed.
  Posting a message changes no interview, and creating one only appends a row.
\<close>

theorem patch_interviews_end_any_status:
  assumes "getInterview d i = Some interview" and "userId interview = actor"
  shows "(\<exists>d'. patch_interviews_end d actor i now =
           (Reply 200 (UpdatedInterview
              (Some (interview\<lparr>status := ''completed'', endedAt := Some now\<rparr>))), d')
         \<and> getInterview d' i = Some (interview\<lparr>status := ''completed'', endedAt := Some now\<rparr>)
         \<and> (\<forall>k. k \<noteq> i \<longrightarrow> getInterview d' k = getInterview d k)
         \<and> interview_messages d' = interview_messages d)
       \<and> interviews (snd (post_messages P openai d a j body t1 t2)) = interviews d
       \<and> (\<exists>new. interviews (snd (post_interviews P d a request t1 t2)) = interviews d @ new)"
proof -
  let ?g = "\<lambda>r. r\<lparr>status := ''completed'', endedAt := Some now\<rparr>"
  let ?d = "d\<lparr>interviews := map (\<lambda>r. if iid r = i then ?g r else r) (interviews d)\<rparr>"
  have e: "patch_interviews_end d actor i now = (Reply 200 (UpdatedInterview (Some (?g interview))), ?d)
      \<and> getInterview ?d i = Some (?g interview)"
  proof -
    have "find (\<lambda>r. iid r = i) (map (\<lambda>r. if iid r = i then ?g r else r) (interviews d))
      = map_option ?g (find (\<lambda>r. iid r = i) (interviews d))"
      by (rule find_map_keep) simp
    then show ?thesis
      using assms getInterview_iid [OF assms(1)]
      by (simp add: patch_interviews_end_def updateInterviewStatus_def getInterview_def Let_def
          cong: if_cong)
  qed
  have "getInterview ?d k = getInterview d k" if "k \<noteq> i" for k
    using find_map_other [of iid ?g k i "interviews d"] that by (simp add: getInterview_def)
  with e have "\<exists>d'. patch_interviews_end d actor i now =
           (Reply 200 (UpdatedInterview (Some (?g interview))), d')
         \<and> getInterview d' i = Some (?g interview)
         \<and> (\<forall>k. k \<noteq> i \<longrightarrow> getInterview d' k = getInterview d k)
         \<and> interview_messages d' = interview_messages d"
    by (intro exI [of _ ?d]) simp
  then show ?thesis
    using post_messages_interviews post_interviews_interviews by blast
qed

theorem patch_interviews_end_cancelled_counterexample:
  "patch_interviews_end (rook_db ''cancelled'' (Some t20)) 1 1 t30 =
     (Reply 200 (UpdatedInterview (Some (rook_interview ''completed'' (Some t30)))),
      rook_db ''completed'' (Some t30))
   \<and> status (rook_interview ''completed'' (Some t30)) \<noteq> ''cancelled''
   \<and> patch_interviews_end (rook_db ''completed'' (Some t20)) 1 1 t30 =
     (Reply 200 (UpdatedInterview (Some (rook_interview ''completed'' (Some t30)))),
      rook_db ''completed'' (Some t30))"
  by (simp add: patch_interviews_end_def getInterview_def updateInterviewStatus_def)

theorem patch_interviews_end_any_status_witness:
  "getInterview (rook_db ''completed'' (Some t20)) 1 = Some (rook_interview ''completed'' (Some t20))
   \<and> userId (rook_interview ''completed'' (Some t20)) = 1
   \<and> fst (patch_interviews_end (rook_db ''completed'' (Some t20)) 1 1 t30) =
       Reply 200 (UpdatedInterview (Some (rook_interview ''completed'' (Some t30))))"
proof -
  have a: "getInterview (rook_db ''completed'' (Some t20)) 1
      = Some (rook_interview ''completed'' (Some t20))"
    by (simp add: getInterview_def)
  have b: "userId (rook_interview ''completed'' (Some t20)) = 1" by simp
  from patch_interviews_end_any_status [OF a b, where now = t30 and P = no_json
      and openai = "\<lambda>q. Rejected" and a = 1 and j = 1 and body = None and ?t1.0 = t0
      and ?t2.0 = t0 and request = None]
  obtain d' where "patch_interviews_end (rook_db ''completed'' (Some t20)) 1 1 t30 =
      (Reply 200 (UpdatedInterview (Some (rook_interview ''completed'' (Some t30)))), d')"
    by auto
  with a b show ?thesis by simp
qed


section \<open>Reading an export back\<close>

lemma scan_quoted:
  "scan InQuoted f r rs (double_quotes t @ CHR 0x22 # rest) = scan QuoteSeen (rev t @ f) r rs rest"
  by (induction t arbitrary: f) (simp_all add: double_quotes_def)

lemma scan_value_comma:
  "plain v \<Longrightarrow> scan FieldStart f r rs (csv_value v @ CHR '','' # rest)
     = scan FieldStart [] (field_of v # r) rs rest"
  by (cases v) (simp_all add: scan_quoted)

lemma scan_value_newline:
  "plain v \<Longrightarrow> scan FieldStart f r rs (csv_value v @ CHR 0x0A # rest)
     = scan FieldStart [] [] (rev (field_of v # r) # rs) rest"
  by (cases v) (simp_all add: scan_quoted)

lemma scan_value_end:
  "plain v \<Longrightarrow> scan FieldStart f r rs (csv_value v) = Some (rev (rev (field_of v # r) # rs))"
proof (cases v)
  case (JNumber n)
  have "scan InQuoted [] r rs (double_quotes (String_of v) @ CHR 0x22 # [])
      = scan QuoteSeen (rev (String_of v) @ []) r rs []"
    by (rule scan_quoted)
  then show ?thesis using JNumber by simp
next
  case (JString t)
  have "scan InQuoted [] r rs (double_quotes t @ CHR 0x22 # [])
      = scan QuoteSeen (rev t @ []) r rs []"
    by (rule scan_quoted)
  then show ?thesis using JString by simp
qed simp_all

lemma scan_row_newline:
  "vs \<noteq> [] \<Longrightarrow> \<forall>v\<in>set vs. plain v \<Longrightarrow>
   scan FieldStart f r rs (join '','' (map csv_value vs) @ CHR 0x0A # rest)
     = scan FieldStart [] [] (rev (rev (map field_of vs) @ r) # rs) rest"
proof (induction vs arbitrary: f r)
  case Nil
  then show ?case by simp
next
  case (Cons v vs)
  show ?case
  proof (cases vs)
    case Nil
    then show ?thesis using Cons.prems by (simp add: scan_value_newline)
  next
    case (Cons w ws)
    have "scan FieldStart f r rs (join '','' (map csv_value (v # vs)) @ CHR 0x0A # rest)
        = scan FieldStart f r rs
            (csv_value v @ CHR '','' # (join '','' (map csv_value vs) @ CHR 0x0A # rest))"
      using Cons by simp
    also have "\<dots> = scan FieldStart [] (field_of v # r) rs
            (join '','' (map csv_value vs) @ CHR 0x0A # rest)"
      using Cons.prems by (simp add: scan_value_comma)
    also have "\<dots> = scan FieldStart [] [] (rev (rev (map field_of vs) @ field_of v # r) # rs) rest"
      using Cons.prems Cons by (intro Cons.IH) simp_all
    finally show ?thesis by simp
  qed
qed

lemma scan_row_end:
  "vs \<noteq> [] \<Longrightarrow> \<forall>v\<in>set vs. plain v \<Longrightarrow>
   scan FieldStart f r rs (join '','' (map csv_value vs))
     = Some (rev (rev (rev (map field_of vs) @ r) # rs))"
proof (induction vs arbitrary: f r)
  case Nil
  then show ?case by simp
next
  case (Cons v vs)
  show ?case
  proof (cases vs)
    case Nil
    then show ?thesis using Cons.prems by (simp add: scan_value_end)
  next
    case (Cons w ws)
    have "scan FieldStart f r rs (join '','' (map csv_value (v # vs)))
        = scan FieldStart f r rs (csv_value v @ CHR '','' # join '','' (map csv_value vs))"
      using Cons by simp
    also have "\<dots> = scan FieldStart [] (field_of v # r) rs (join '','' (map csv_value vs))"
      using Cons.prems by (simp add: scan_value_comma)
    also have "\<dots> = Some (rev (rev (rev (map field_of vs) @ field_of v # r) # rs))"
      using Cons.prems Cons by (intro Cons.IH) simp_all
    finally show ?thesis by simp
  qed
qed

lemma scan_rows:
  "rows \<noteq> [] \<Longrightarrow> \<forall>vs\<in>set rows. vs \<noteq> [] \<and> (\<forall>v\<in>set vs. plain v) \<Longrightarrow>
   scan FieldStart f [] rs (join [CHR 0x0A] (map objectToCSVRow rows))
     = Some (rev (rev (map (map field_of) rows) @ rs))"
proof (induction rows arbitrary: f rs)
  case Nil
  then show ?case by simp
next
  case (Cons vs rows)
  show ?case
  proof (cases rows)
    case Nil
    then show ?thesis using Cons.prems by (simp add: objectToCSVRow_def scan_row_end)
  next
    case (Cons ws wss)
    have "scan FieldStart f [] rs (join [CHR 0x0A] (map objectToCSVRow (vs # rows)))
        = scan FieldStart f [] rs
            (join '','' (map csv_value vs) @ CHR 0x0A # join [CHR 0x0A] (map objectToCSVRow rows))"
      using Cons by (simp add: objectToCSVRow_def)
    also have "\<dots> = scan FieldStart [] [] (rev (rev (map field_of vs) @ []) # rs)
            (join [CHR 0x0A] (map objectToCSVRow rows))"
      using Cons.prems by (intro scan_row_newline) simp_all
    also have "\<dots> = Some (rev (rev (map (map field_of) rows) @ (rev (rev (map field_of vs) @ []) # rs)))"
      using Cons.prems Cons by (intro Cons.IH) simp_all
    finally show ?thesis by simp
  qed
qed

lemma scan_header:
  "scan FieldStart [] [] [] (join '','' interview_keys @ CHR 0x0A # rest)
     = scan FieldStart [] [] [map Bare interview_keys] rest"
  by (simp add: interview_keys_def)

lemma scan_header_end:
  "scan FieldStart [] [] [] (join '','' interview_keys) = Some [map Bare interview_keys]"
  by (simp add: interview_keys_def)

lemma of_char_digit: "k < 10 \<Longrightarrow> (of_char (char_of (48 + k :: nat)) :: nat) = 48 + k"
  by (simp add: of_char_of)

lemma number_digits: "foldl (\<lambda>a d. 10 * a + (of_char d - 48)) 0 (digits n) = n"
proof (induction n rule: digits.induct)
  case (1 n)
  show ?case
  proof (cases "n < 10")
    case True
    then show ?thesis by (subst digits.simps) (simp add: of_char_digit)
  next
    case False
    have "n mod 10 < 10" by simp
    then have "(of_char (char_of (48 + n mod 10)) :: nat) = 48 + n mod 10"
      by (rule of_char_digit)
    then show ?thesis using False "1" by (subst digits.simps) simp
  qed
qed

lemma digits_chars: "c \<in> set (digits n) \<Longrightarrow> 48 \<le> (of_char c :: nat)"
proof (induction n rule: digits.induct)
  case (1 n)
  have m: "n mod 10 < 10" by simp
  show ?case
  proof (cases "n < 10")
    case True
    with "1.prems" have "c = char_of (48 + n)" by (subst (asm) digits.simps) simp
    then show ?thesis using True by (simp add: of_char_digit)
  next
    case False
    with "1.prems" have "c \<in> set (digits (n div 10)) \<or> c = char_of (48 + n mod 10)"
      by (subst (asm) digits.simps) auto
    then show ?thesis using "1.IH" [OF False] of_char_digit [OF m] by auto
  qed
qed

lemma digits_Cons: "\<exists>c cs. digits n = c # cs \<and> c \<noteq> CHR ''-''"
proof -
  have "digits n \<noteq> []" by (subst digits.simps) simp
  then obtain c cs where e: "digits n = c # cs" by (cases "digits n") auto
  then have "48 \<le> (of_char c :: nat)" using digits_chars [of c n] by simp
  then have "c \<noteq> CHR ''-''" by auto
  with e show ?thesis by blast
qed

lemma number_of_String: "number_of (String_of (JNumber n)) = n"
proof (cases "n < 0")
  case True
  then show ?thesis by (simp add: number_of_def number_digits)
next
  case False
  from digits_Cons [of "nat n"] obtain c cs where e: "digits (nat n) = c # cs" "c \<noteq> CHR ''-''"
    by blast
  have "number_of (digits (nat n)) = int (foldl (\<lambda>a d. 10 * a + (of_char d - 48)) 0 (digits (nat n)))"
    using e by (simp add: number_of_def)
  then show ?thesis using False by (simp add: number_digits)
qed

lemma revive_number: "revive INTEGER (field_of (JNumber n)) = JNumber n"
  by (simp add: number_of_String del: String_of.simps)

lemma revive_text: "revive TEXT (field_of (JString t)) = JString t"
  by simp

lemma revive_null: "revive ty (field_of JNull) = JNull"
  by simp

lemma revive_interview_values:
  "map2 revive interview_columns (map field_of (interview_values r))
     = interview_values r"
  by (cases "resumeId r"; cases "endedAt r")
    (simp_all add: interview_columns_def interview_values_def revive_number revive_text
       revive_null del: field_of.simps revive.simps)

lemma interview_values_plain:
  "interview_values r \<noteq> [] \<and> (\<forall>v\<in>set (interview_values r). plain v)"
  by (cases "resumeId r"; cases "endedAt r") (simp_all add: interview_values_def)

lemma parse_csv_content:
  "parse_csv (csv_content rows)
     = Some (map Bare interview_keys #
             map (\<lambda>r. map field_of (interview_values r)) rows)"
proof (cases rows)
  case Nil
  then show ?thesis by (simp add: parse_csv_def csv_content_def scan_header_end)
next
  case (Cons r rs)
  let ?vals = "map interview_values rows"
  have v: "?vals \<noteq> []" "\<forall>vs\<in>set ?vals. vs \<noteq> [] \<and> (\<forall>v\<in>set vs. plain v)"
    using Cons interview_values_plain by auto
  have "csv_content rows
      = join '','' interview_keys @ CHR 0x0A # join [CHR 0x0A] (map objectToCSVRow ?vals)"
    using Cons by (simp add: csv_content_def comp_def)
  then have "parse_csv (csv_content rows)
      = scan FieldStart [] [] [map Bare interview_keys] (join [CHR 0x0A] (map objectToCSVRow ?vals))"
    by (simp only: parse_csv_def scan_header)
  also have "\<dots> = Some (rev (rev (map (map field_of) ?vals) @ [map Bare interview_keys]))"
    by (rule scan_rows [OF v])
  finally show ?thesis by (simp add: comp_def)
qed

text \<open>
  C7. Whenever \<open>exportInterviewsToCSV\<close> writes a file, reading its text back yields
  the header and one record per exported interview, and reading each field as a value
  of its column yields the values of the exported rows, in the same order: numbers,
  texts (also with quotes, commas and line feeds inside) and \<^verbatim>\<open>null\<close> come back as
  they were written.
\<close>

theorem export_reparse:
  assumes "exportInterviewsToCSV cwd d options now = (Inr path, Some (file, text))"
  shows "\<exists>table. parse_csv text = Some table
           \<and> hd table = map Bare interview_keys
           \<and> revive_interviews table
               = map interview_values (select_interviews d options)"
proof -
  have t: "text = csv_content (select_interviews d options)"
    using assms by (auto simp: exportInterviewsToCSV_def Let_def split: if_splits)
  have "map (\<lambda>row. map2 revive interview_columns row)
          (map (\<lambda>r. map field_of (interview_values r)) rows)
        = map interview_values rows" for rows
    by (simp add: revive_interview_values comp_def)
  then show ?thesis
    unfolding t parse_csv_content revive_interviews_def by simp
qed

theorem export_reparse_witness:
  "exportInterviewsToCSV ''/srv/app''
      (rook_db ''in_progress'' None)
      \<lparr>opt_userId = Some 1, startDate = None, endDate = None\<rparr> t40
     = (Inr ''/srv/app/exports/interviews_export_1970-01-01T00-00-00.040Z.csv'',
        Some (''/srv/app/exports/interviews_export_1970-01-01T00-00-00.040Z.csv'',
              csv_content [rook_interview ''in_progress'' None]))
   \<and> parse_csv (csv_content [rook_interview ''in_progress'' None])
     = Some [map Bare interview_keys,
             [Quoted ''1'', Quoted ''1'', Bare [], Quoted ''backend'', Quoted ''intermediate'',
              Quoted ''1970-01-01T00:00:00.010Z'', Bare [], Quoted ''in_progress'', Quoted ''rook'']]
   \<and> revive_interviews
       [map Bare interview_keys,
        [Quoted ''1'', Quoted ''1'', Bare [], Quoted ''backend'', Quoted ''intermediate'',
         Quoted ''1970-01-01T00:00:00.010Z'', Bare [], Quoted ''in_progress'', Quoted ''rook'']]
     = [[JNumber 1, JNumber 1, JNull, JString ''backend'', JString ''intermediate'',
         JString ''1970-01-01T00:00:00.010Z'', JNull, JString ''in_progress'', JString ''rook'']]"
proof -
  let ?p = "''/srv/app/exports/interviews_export_1970-01-01T00-00-00.040Z.csv''"
  have a: "exportInterviewsToCSV ''/srv/app'' (rook_db ''in_progress'' None)
      \<lparr>opt_userId = Some 1, startDate = None, endDate = None\<rparr> t40
     = (Inr ?p, Some (?p, csv_content [rook_interview ''in_progress'' None]))"
    by (simp add: exportInterviewsToCSV_def select_interviews_def matches_def Let_def)
  have s: "select_interviews (rook_db ''in_progress'' None)
      \<lparr>opt_userId = Some 1, startDate = None, endDate = None\<rparr> = [rook_interview ''in_progress'' None]"
    by (simp add: select_interviews_def matches_def)
  have "char_of (49::nat) = CHR ''1''" by code_simp
  then have d1: "digits (Suc 0) = ''1''" by (subst digits.simps) simp
  have b: "parse_csv (csv_content [rook_interview ''in_progress'' None])
     = Some [map Bare interview_keys,
             [Quoted ''1'', Quoted ''1'', Bare [], Quoted ''backend'', Quoted ''intermediate'',
              Quoted ''1970-01-01T00:00:00.010Z'', Bare [], Quoted ''in_progress'', Quoted ''rook'']]"
    by (simp add: parse_csv_content interview_values_def d1)
  from export_reparse [OF a] b s
  have "revive_interviews
       [map Bare interview_keys,
        [Quoted ''1'', Quoted ''1'', Bare [], Quoted ''backend'', Quoted ''intermediate'',
         Quoted ''1970-01-01T00:00:00.010Z'', Bare [], Quoted ''in_progress'', Quoted ''rook'']]
     = [interview_values (rook_interview ''in_progress'' None)]"
    by simp
  then show ?thesis using a b by (simp add: interview_values_def)
qed


end
